theory Spec2Isabelle
  imports Main
begin

section \<open>The values of the program\<close>

text \<open>
  The store of \<^verbatim>\<open>defineCacheStore\<close> is generic in the record type \<open>T\<close>; here it is the
  type variable \<open>'a\<close> (the fields of a record). A JavaScript object is more than its
  fields: two objects with the same fields are still two objects. An object is therefore
  a pair of an address and its fields, and the object spread \<^verbatim>\<open>{ ...x }\<close> allocates a new
  address. The code under study never assigns to a field of an existing object, so no
  map from addresses to fields is needed.
\<close>

record 'a obj =
  addr :: nat
  props :: 'a

text \<open>
  \<^verbatim>\<open>string | number\<close>, the type of an identifier. The numbers are the integers (the
  specification's identifiers are strings or integers); \<^verbatim>\<open>===\<close> on two such values is
  equality of the tagged values.
\<close>

datatype uid = Str string | Num int

text \<open>A thrown value, and the way an awaited promise settles.\<close>

datatype error = Error string

datatype 'r outcome = Rejected error | Resolved 'r

text \<open>
  What the Backend may touch when it is called: the allocator of object addresses (it
  builds objects too) and its own state \<open>'b\<close>.
\<close>

record 'b runtime =
  nextAddr :: nat
  backend :: 'b

text \<open>\<^verbatim>\<open>interface DefineCacheStoreOpts<T>\<close>. The four Backend functions are prefixed, since
  the store's own operations carry the same names.\<close>

record ('a, 'b) DefineCacheStoreOpts =
  allItemsCacheMs :: int
  singleItemCacheMs :: int
  getUid :: "'a \<Rightarrow> uid"
  opts_getAllItems :: "'b runtime \<Rightarrow> 'a obj list outcome \<times> 'b runtime"
  opts_getItem :: "uid \<Rightarrow> 'b runtime \<Rightarrow> 'a obj option outcome \<times> 'b runtime"
  opts_updateItem :: "uid \<Rightarrow> 'a obj \<Rightarrow> 'b runtime \<Rightarrow> 'a obj outcome \<times> 'b runtime"
  opts_createItem :: "'a obj \<Rightarrow> 'b runtime \<Rightarrow> 'a obj outcome \<times> 'b runtime"

text \<open>\<^verbatim>\<open>interface StoreItem<T>\<close>; a \<^verbatim>\<open>Date\<close> is its \<^verbatim>\<open>getTime()\<close>, in milliseconds.\<close>

record 'a StoreItem =
  item :: "'a obj"
  lastFetched :: int

text \<open>A call of a Backend function, as it is recorded in the world's log of calls.\<close>

datatype 'a call =
  CallGetAllItems
| CallGetItem uid
| CallUpdateItem uid "'a obj"
| CallCreateItem "'a obj"

text \<open>
  Everything the closure of \<^verbatim>\<open>defineCacheStore\<close> reads and writes. The first three
  fields are its reactive values. The system clock is a sequence of readings: the
  \<open>n\<close>-th evaluation of \<^verbatim>\<open>new Date()\<close> reads \<open>clock n\<close>, and \<open>ticks\<close> counts the
  readings made so far, so that time may pass between any two readings. \<open>calls\<close> lists
  the Backend calls made and \<open>console\<close> what \<^verbatim>\<open>console.error\<close> printed.
\<close>

record ('a, 'b) world =
  allItems :: "'a StoreItem list"
  lastFetchedAllItems :: "int option"
  gettingAllItems :: bool
  clock :: "nat \<Rightarrow> int"
  ticks :: nat
  rt :: "'b runtime"
  calls :: "'a call list"
  console :: "error list"

section \<open>The clock, objects and arrays\<close>

text \<open>\<^verbatim>\<open>new Date()\<close>, as its time in milliseconds.\<close>

definition newDate :: "('a, 'b) world \<Rightarrow> int \<times> ('a, 'b) world" where
  "newDate w = (clock w (ticks w), w\<lparr>ticks := Suc (ticks w)\<rparr>)"

text \<open>A new object with the given fields.\<close>

definition alloc :: "'a \<Rightarrow> 'b runtime \<Rightarrow> 'a obj \<times> 'b runtime" where
  "alloc fs r = (\<lparr>addr = nextAddr r, props = fs\<rparr>, r\<lparr>nextAddr := Suc (nextAddr r)\<rparr>)"

text \<open>\<^verbatim>\<open>{ ...x }\<close> in the store.\<close>

definition spread :: "'a obj \<Rightarrow> ('a, 'b) world \<Rightarrow> 'a obj \<times> ('a, 'b) world" where
  "spread x w = (let (copy, r) = alloc (props x) (rt w) in (copy, w\<lparr>rt := r\<rparr>))"

text \<open>\<^verbatim>\<open>new Date().getTime() - lastFetched.getTime() > cacheMs\<close>\<close>

definition cacheHasExpired :: "int \<Rightarrow> int \<Rightarrow> ('a, 'b) world \<Rightarrow> bool \<times> ('a, 'b) world" where
  "cacheHasExpired lastFetched' cacheMs w =
     (let (now, w1) = newDate w in (now - lastFetched' > cacheMs, w1))"

text \<open>\<^verbatim>\<open>Array.prototype.findIndex\<close>: the first index at which the predicate holds, or -1.\<close>

fun findIndex :: "('x \<Rightarrow> bool) \<Rightarrow> 'x list \<Rightarrow> int" where
  "findIndex p [] = -1"
| "findIndex p (x # xs) =
     (if p x then 0
      else (let i = findIndex p xs in if i = -1 then -1 else i + 1))"

text \<open>\<^verbatim>\<open>xs.splice(index, 1, x)\<close> for an index that is not negative: the element at the
  index, if there is one, is removed and \<open>x\<close> is put there.\<close>

definition splice1 :: "int \<Rightarrow> 'x \<Rightarrow> 'x list \<Rightarrow> 'x list" where
  "splice1 index x xs = take (nat index) xs @ x # drop (Suc (nat index)) xs"

section \<open>The store\<close>

text \<open>
  Each operation of the store is an \<^verbatim>\<open>async\<close> function. Here it runs to its end in one
  step: the call of the Backend that it awaits is made at once, and settles as the
  function of the options says. What other tasks do to the store while an operation
  awaits the Backend is not part of the model. The records are objects, so
  \<^verbatim>\<open>!freshItem\<close> and \<^verbatim>\<open>!item.value\<close> hold of \<^verbatim>\<open>undefined\<close> only, which is \<open>None\<close>.
\<close>

text \<open>The state in which \<^verbatim>\<open>defineCacheStore\<close> leaves its closure: no items, never fetched.\<close>

definition defineCacheStore :: "(nat \<Rightarrow> int) \<Rightarrow> 'b runtime \<Rightarrow> ('a, 'b) world" where
  "defineCacheStore clk r =
     \<lparr>allItems = [], lastFetchedAllItems = None, gettingAllItems = False,
      clock = clk, ticks = 0, rt = r, calls = [], console = []\<rparr>"

definition updateStoreItem ::
  "('a, 'b) DefineCacheStoreOpts \<Rightarrow> 'a obj \<Rightarrow> ('a, 'b) world \<Rightarrow> ('a, 'b) world" where
  "updateStoreItem opts newItem w =
     (let (copy, w1) = spread newItem w;
          (now, w2) = newDate w1;
          storeItem = \<lparr>item = copy, lastFetched = now\<rparr>;
          index = findIndex (\<lambda>e. getUid opts (props (item e)) = getUid opts (props newItem))
                    (allItems w2)
      in if index = -1 then w2\<lparr>allItems := allItems w2 @ [storeItem]\<rparr>
         else w2\<lparr>allItems := splice1 index storeItem (allItems w2)\<rparr>)"

text \<open>The callback of \<^verbatim>\<open>items.map\<close> in \<^verbatim>\<open>getAllItems\<close>: every item is wrapped as it is
  (no copy) with a reading of the clock of its own.\<close>

fun stampItems :: "'a obj list \<Rightarrow> ('a, 'b) world \<Rightarrow> 'a StoreItem list \<times> ('a, 'b) world" where
  "stampItems [] w = ([], w)"
| "stampItems (x # xs) w =
     (let (now, w1) = newDate w;
          (rest, w2) = stampItems xs w1
      in (\<lparr>item = x, lastFetched = now\<rparr> # rest, w2))"

text \<open>The result is \<^verbatim>\<open>allItems.value\<close>, or \<open>None\<close> for \<^verbatim>\<open>undefined\<close>.\<close>

definition getAllItems ::
  "('a, 'b) DefineCacheStoreOpts \<Rightarrow> ('a, 'b) world \<Rightarrow> 'a StoreItem list option \<times> ('a, 'b) world" where
  "getAllItems opts w0 =
     (let w1 = w0\<lparr>gettingAllItems := True\<rparr>;
          (valid, w2) =
            (case lastFetchedAllItems w1 of
               None \<Rightarrow> (False, w1)
             | Some lastFetched' \<Rightarrow>
                 (let (expired, w') = cacheHasExpired lastFetched' (allItemsCacheMs opts) w1
                  in (\<not> expired, w')))
      in if valid then
           (let w3 = w2\<lparr>gettingAllItems := False\<rparr> in (Some (allItems w3), w3))
         else
           (let w3 = w2\<lparr>calls := calls w2 @ [CallGetAllItems]\<rparr>;
                (res, r) = opts_getAllItems opts (rt w3);
                w4 = w3\<lparr>rt := r\<rparr>
            in case res of
                 Resolved items \<Rightarrow>
                   (let (stamped, w5) = stampItems items w4;
                        w6 = w5\<lparr>allItems := stamped\<rparr>;
                        (now, w7) = newDate w6;
                        w8 = w7\<lparr>lastFetchedAllItems := Some now\<rparr>;
                        w9 = w8\<lparr>gettingAllItems := False\<rparr>
                    in (Some (allItems w9), w9))
               | Rejected e \<Rightarrow>
                   (let w5 = w4\<lparr>console := console w4 @ [e]\<rparr>;
                        w6 = w5\<lparr>gettingAllItems := False\<rparr>
                    in (None, w6))))"

text \<open>The \<^verbatim>\<open>try\<close> block of \<^verbatim>\<open>getSingleItem\<close> with its \<^verbatim>\<open>catch\<close>.\<close>

definition getSingleItem_fetch ::
  "('a, 'b) DefineCacheStoreOpts \<Rightarrow> uid \<Rightarrow> ('a, 'b) world \<Rightarrow> 'a obj option \<times> ('a, 'b) world" where
  "getSingleItem_fetch opts id' w =
     (let w1 = w\<lparr>calls := calls w @ [CallGetItem id']\<rparr>;
          (res, r) = opts_getItem opts id' (rt w1);
          w2 = w1\<lparr>rt := r\<rparr>
      in case res of
           Resolved (Some freshItem) \<Rightarrow> (Some freshItem, updateStoreItem opts freshItem w2)
         | Resolved None \<Rightarrow> (None, w2\<lparr>console := console w2 @ [Error ''Item not found'']\<rparr>)
         | Rejected e \<Rightarrow> (None, w2\<lparr>console := console w2 @ [e]\<rparr>))"

definition getSingleItem ::
  "('a, 'b) DefineCacheStoreOpts \<Rightarrow> uid \<Rightarrow> ('a, 'b) world \<Rightarrow> 'a obj option \<times> ('a, 'b) world" where
  "getSingleItem opts id' w =
     (case find (\<lambda>e. getUid opts (props (item e)) = id') (allItems w) of
        None \<Rightarrow> getSingleItem_fetch opts id' w
      | Some existingItem \<Rightarrow>
          (let (expired, w1) = cacheHasExpired (lastFetched existingItem) (singleItemCacheMs opts) w
           in if \<not> expired then
                (let (copy, w2) = spread (item existingItem) w1 in (Some copy, w2))
              else getSingleItem_fetch opts id' w1))"

definition updateItem ::
  "('a, 'b) DefineCacheStoreOpts \<Rightarrow> uid \<Rightarrow> 'a obj \<Rightarrow> ('a, 'b) world
     \<Rightarrow> 'a obj option \<times> ('a, 'b) world" where
  "updateItem opts id' item' w =
     (let w1 = w\<lparr>calls := calls w @ [CallUpdateItem id' item']\<rparr>;
          (res, r) = opts_updateItem opts id' item' (rt w1);
          w2 = w1\<lparr>rt := r\<rparr>
      in case res of
           Resolved updatedItem \<Rightarrow> (Some updatedItem, updateStoreItem opts updatedItem w2)
         | Rejected e \<Rightarrow> (None, w2\<lparr>console := console w2 @ [e]\<rparr>))"

definition createItem ::
  "('a, 'b) DefineCacheStoreOpts \<Rightarrow> 'a obj \<Rightarrow> ('a, 'b) world \<Rightarrow> 'a obj option \<times> ('a, 'b) world" where
  "createItem opts item' w =
     (let w1 = w\<lparr>calls := calls w @ [CallCreateItem item']\<rparr>;
          (res, r) = opts_createItem opts item' (rt w1);
          w2 = w1\<lparr>rt := r\<rparr>
      in case res of
           Resolved createdItem \<Rightarrow> (Some createdItem, updateStoreItem opts createdItem w2)
         | Rejected e \<Rightarrow> (None, w2\<lparr>console := console w2 @ [e]\<rparr>))"

subsection \<open>The helpers of one record\<close>

text \<open>The reactive values that \<^verbatim>\<open>itemHelpers(id)\<close> creates, with the \<^verbatim>\<open>id\<close> its closures
  hold: \<open>item_value\<close> is \<^verbatim>\<open>item.value\<close>.\<close>

record 'a helpers =
  helpers_id :: uid
  item_value :: "'a obj option"
  getting :: bool
  saving :: bool

definition itemHelpers :: "uid \<Rightarrow> 'a helpers" where
  "itemHelpers id' = \<lparr>helpers_id = id', item_value = None, getting = True, saving = False\<rparr>"

definition get ::
  "('a, 'b) DefineCacheStoreOpts \<Rightarrow> 'a helpers \<times> ('a, 'b) world \<Rightarrow> 'a helpers \<times> ('a, 'b) world" where
  "get opts hw =
     (let (h, w) = hw;
          h1 = h\<lparr>getting := True\<rparr>;
          (res, w1) = getSingleItem opts (helpers_id h1) w;
          h2 = h1\<lparr>item_value := res\<rparr>;
          h3 = h2\<lparr>getting := False\<rparr>
      in (h3, w1))"

text \<open>
  \<^verbatim>\<open>saveItem\<close> is suspended once, at \<^verbatim>\<open>await updateItem(id, item.value)\<close>.
  \<open>saveItem_begin\<close> is the function up to there: \<open>None\<close> when it returns before, for
  want of a value, and else the helpers as every other task sees them while the update is
  awaited, with the two arguments of \<^verbatim>\<open>updateItem\<close>. \<open>saveItem_end\<close> is the rest of the
  function, which runs once \<^verbatim>\<open>updateItem\<close> has resolved; what \<^verbatim>\<open>updateItem\<close> resolved
  with is not used.
\<close>

definition saveItem_begin ::
  "('a, 'b) DefineCacheStoreOpts \<Rightarrow> 'a helpers \<Rightarrow> ('a helpers \<times> uid \<times> 'a obj) option" where
  "saveItem_begin opts h =
     (case item_value h of
        None \<Rightarrow> None
      | Some v \<Rightarrow>
          (let h1 = h\<lparr>saving := True\<rparr>;
               id' = getUid opts (props v)
           in Some (h1, id', v)))"

definition saveItem_end :: "'a helpers \<Rightarrow> 'a helpers" where
  "saveItem_end h1 = h1\<lparr>saving := False\<rparr>"

definition saveItem ::
  "('a, 'b) DefineCacheStoreOpts \<Rightarrow> 'a helpers \<times> ('a, 'b) world \<Rightarrow> 'a helpers \<times> ('a, 'b) world" where
  "saveItem opts hw =
     (let (h, w) = hw
      in case saveItem_begin opts h of
           None \<Rightarrow> (h, w)
         | Some (h1, id', v) \<Rightarrow>
             (let (res, w1) = updateItem opts id' v w;
                  h2 = saveItem_end h1
              in (h2, w1)))"

subsection \<open>Sequences of operations\<close>

text \<open>The public operations of the store, and a caller that performs some of them one
  after the other, each to its end, on the store as \<^verbatim>\<open>defineCacheStore\<close> made it or as
  the operations before left it.\<close>

datatype 'a operation =
  GetAllItems
| GetSingleItem uid
| UpdateItem uid "'a obj"
| CreateItem "'a obj"

fun perform ::
  "('a, 'b) DefineCacheStoreOpts \<Rightarrow> 'a operation \<Rightarrow> ('a, 'b) world \<Rightarrow> ('a, 'b) world" where
  "perform opts GetAllItems w = snd (getAllItems opts w)"
| "perform opts (GetSingleItem id') w = snd (getSingleItem opts id' w)"
| "perform opts (UpdateItem id' item') w = snd (updateItem opts id' item' w)"
| "perform opts (CreateItem item') w = snd (createItem opts item' w)"

fun performAll ::
  "('a, 'b) DefineCacheStoreOpts \<Rightarrow> 'a operation list \<Rightarrow> ('a, 'b) world \<Rightarrow> ('a, 'b) world" where
  "performAll opts [] w = w"
| "performAll opts (op # ops) w = performAll opts ops (perform opts op w)"

text \<open>The same for the two functions of one \<^verbatim>\<open>itemHelpers(id)\<close>, mixed with operations
  of the store.\<close>

datatype 'a helperOperation = Get | SaveItem | Store "'a operation"

fun performHelper ::
  "('a, 'b) DefineCacheStoreOpts \<Rightarrow> 'a helperOperation \<Rightarrow> 'a helpers \<times> ('a, 'b) world
     \<Rightarrow> 'a helpers \<times> ('a, 'b) world" where
  "performHelper opts Get hw = get opts hw"
| "performHelper opts SaveItem hw = saveItem opts hw"
| "performHelper opts (Store op) hw = (fst hw, perform opts op (snd hw))"

fun performHelpers ::
  "('a, 'b) DefineCacheStoreOpts \<Rightarrow> 'a helperOperation list \<Rightarrow> 'a helpers \<times> ('a, 'b) world
     \<Rightarrow> 'a helpers \<times> ('a, 'b) world" where
  "performHelpers opts [] hw = hw"
| "performHelpers opts (op # ops) hw = performHelpers opts ops (performHelper opts op hw)"

text \<open>\<^verbatim>\<open>getUid(entry.item)\<close>, the identifier of an entry of the cache.\<close>

definition entryUid :: "('a, 'b) DefineCacheStoreOpts \<Rightarrow> 'a StoreItem \<Rightarrow> uid" where
  "entryUid opts e = getUid opts (props (item e))"

section \<open>The store of the example and its fake API\<close>

text \<open>\<^verbatim>\<open>interface Org { name: string; id: number }\<close> and \<^verbatim>\<open>Partial<Org>\<close>, in which a
  field may be missing.\<close>

record Org =
  org_name :: string
  org_id :: int

record PartialOrg =
  partial_name :: "string option"
  partial_id :: "int option"

text \<open>\<^verbatim>\<open>{ ...existingOrg, ...org }\<close>: the fields of the second object win.\<close>

definition mergeOrg :: "Org \<Rightarrow> PartialOrg \<Rightarrow> Org" where
  "mergeOrg existingOrg org =
     \<lparr>org_name = (case partial_name org of None \<Rightarrow> org_name existingOrg | Some n \<Rightarrow> n),
      org_id = (case partial_id org of None \<Rightarrow> org_id existingOrg | Some i \<Rightarrow> i)\<rparr>"

text \<open>An \<^verbatim>\<open>Org\<close> passed where a \<^verbatim>\<open>Partial<Org>\<close> is expected has both fields.\<close>

definition asPartial :: "Org \<Rightarrow> PartialOrg" where
  "asPartial org = \<lparr>partial_name = Some (org_name org), partial_id = Some (org_id org)\<rparr>"

text \<open>\<^verbatim>\<open>db.orgs\<close>, the state of the fake API, at the start.\<close>

definition db :: "Org obj list runtime" where
  "db =
     \<lparr>nextAddr = 4,
      backend =
        [\<lparr>addr = 0, props = \<lparr>org_name = ''Org 1'', org_id = 1\<rparr>\<rparr>,
         \<lparr>addr = 1, props = \<lparr>org_name = ''Org 2'', org_id = 2\<rparr>\<rparr>,
         \<lparr>addr = 2, props = \<lparr>org_name = ''Org 3'', org_id = 3\<rparr>\<rparr>,
         \<lparr>addr = 3, props = \<lparr>org_name = ''Org 4'', org_id = 4\<rparr>\<rparr>]\<rparr>"

text \<open>\<^verbatim>\<open>api.orgs.get\<close>: a new array of the same objects.\<close>

definition api_orgs_get :: "Org obj list runtime \<Rightarrow> Org obj list outcome \<times> Org obj list runtime" where
  "api_orgs_get r = (Resolved (backend r), r)"

text \<open>\<^verbatim>\<open>api.orgs.create\<close>\<close>

definition api_orgs_create ::
  "Org obj \<Rightarrow> Org obj list runtime \<Rightarrow> Org obj outcome \<times> Org obj list runtime" where
  "api_orgs_create org r =
     (let r1 = r\<lparr>backend := backend r @ [org]\<rparr>;
          (copy, r2) = alloc (props org) r1
      in (Resolved copy, r2))"

text \<open>\<^verbatim>\<open>api.org(id).get\<close>\<close>

definition api_org_get ::
  "uid \<Rightarrow> Org obj list runtime \<Rightarrow> Org obj option outcome \<times> Org obj list runtime" where
  "api_org_get id' r =
     (case find (\<lambda>org. Num (org_id (props org)) = id') (backend r) of
        Some org \<Rightarrow> (let (copy, r1) = alloc (props org) r in (Resolved (Some copy), r1))
      | None \<Rightarrow> (Resolved None, r))"

text \<open>\<^verbatim>\<open>api.org(id).update\<close>\<close>

definition api_org_update ::
  "uid \<Rightarrow> PartialOrg \<Rightarrow> Org obj list runtime \<Rightarrow> Org obj outcome \<times> Org obj list runtime" where
  "api_org_update id' org r =
     (case find (\<lambda>x. Num (org_id (props x)) = id') (backend r) of
        None \<Rightarrow> (Rejected (Error ''Org not found''), r)
      | Some existingOrg \<Rightarrow>
          (let (newOrg, r1) = alloc (mergeOrg (props existingOrg) org) r;
               existingOrgIndex = findIndex (\<lambda>x. Num (org_id (props x)) = id') (backend r1);
               r2 = r1\<lparr>backend := splice1 existingOrgIndex newOrg (backend r1)\<rparr>;
               (copy, r3) = alloc (props newOrg) r2
           in (Resolved copy, r3)))"

text \<open>The options that \<^verbatim>\<open>useTestStore\<close> gives to \<^verbatim>\<open>defineCacheStore\<close>.\<close>

definition useTestStore :: "(Org, Org obj list) DefineCacheStoreOpts" where
  "useTestStore =
     \<lparr>allItemsCacheMs = 1000 * 60,
      singleItemCacheMs = 1000 * 60,
      getUid = (\<lambda>org. Num (org_id org)),
      opts_getAllItems = api_orgs_get,
      opts_getItem = (\<lambda>id'. api_org_get id'),
      opts_updateItem = (\<lambda>id' org. api_org_update id' (asPartial (props org))),
      opts_createItem = (\<lambda>org. api_orgs_create org)\<rparr>"

section \<open>Other Backends, a clock and a store to run\<close>

text \<open>A Backend that cannot be reached: every call is rejected.\<close>

definition offline :: "(Org, Org obj list) DefineCacheStoreOpts" where
  "offline =
     useTestStore
       \<lparr>opts_getAllItems := (\<lambda>r. (Rejected (Error ''offline''), r)),
        opts_getItem := (\<lambda>id' r. (Rejected (Error ''offline''), r)),
        opts_updateItem := (\<lambda>id' org r. (Rejected (Error ''offline''), r)),
        opts_createItem := (\<lambda>org r. (Rejected (Error ''offline''), r))\<rparr>"

text \<open>The fake API behind a server that refuses every update.\<close>

definition readOnly :: "(Org, Org obj list) DefineCacheStoreOpts" where
  "readOnly = useTestStore\<lparr>opts_updateItem := (\<lambda>id' org r. (Rejected (Error ''read only''), r))\<rparr>"


text \<open>A clock that shows 100 when it is first read and a millisecond more at each further
  reading, and the store of the example as \<^verbatim>\<open>defineCacheStore\<close> leaves it, on that clock
  and the fake database.\<close>

definition millisecondClock :: "nat \<Rightarrow> int" where
  "millisecondClock n = 100 + int n"

definition testStore :: "(Org, Org obj list) world" where
  "testStore = defineCacheStore millisecondClock db"



section \<open>Facts about the arrays and the upsert\<close>

lemma findIndex_ge: "- 1 \<le> findIndex p xs"
  by (induction xs) (auto simp: Let_def)

lemma findIndex_none: "findIndex p xs = - 1 \<longleftrightarrow> (\<forall>x \<in> set xs. \<not> p x)"
proof (induction xs)
  case Nil
  show ?case by simp
next
  case (Cons x xs)
  have "- 1 \<le> findIndex p xs" by (rule findIndex_ge)
  with Cons show ?case by (auto simp: Let_def)
qed

lemma findIndex_found:
  "findIndex p xs \<noteq> - 1 \<Longrightarrow>
     0 \<le> findIndex p xs \<and> nat (findIndex p xs) < length xs \<and> p (xs ! nat (findIndex p xs)) \<and>
     (\<forall>j < nat (findIndex p xs). \<not> p (xs ! j))"
proof (induction xs)
  case Nil
  then show ?case by simp
next
  case (Cons x xs)
  show ?case
  proof (cases "p x")
    case True
    then show ?thesis by simp
  next
    case False
    with Cons.prems have ne: "findIndex p xs \<noteq> - 1" by (auto simp: Let_def split: if_splits)
    from Cons.IH [OF ne] have ih: "0 \<le> findIndex p xs" "nat (findIndex p xs) < length xs"
      "p (xs ! nat (findIndex p xs))" "\<forall>j < nat (findIndex p xs). \<not> p (xs ! j)" by auto
    have eq: "findIndex p (x # xs) = findIndex p xs + 1" using False ne by (simp add: Let_def)
    have n: "nat (findIndex p xs + 1) = Suc (nat (findIndex p xs))" using ih(1) by simp
    show ?thesis unfolding eq n using ih False
      by (auto simp: nth_Cons split: nat.splits)
  qed
qed

lemma splice1_update: "0 \<le> i \<Longrightarrow> nat i < length xs \<Longrightarrow> splice1 i x xs = xs[nat i := x]"
  by (simp add: splice1_def upd_conv_take_nth_drop)

text \<open>The first index at which a predicate holds is the only index with the predicate
  there and nowhere before.\<close>

lemma first_index_unique:
  "i < length xs \<Longrightarrow> p (xs ! i) \<Longrightarrow> \<forall>j < i. \<not> p (xs ! j) \<Longrightarrow> findIndex p xs = int i"
proof -
  assume i: "i < length xs" and pi: "p (xs ! i)" and before: "\<forall>j < i. \<not> p (xs ! j)"
  from i pi have "\<exists>x \<in> set xs. p x" by auto
  then have ne: "findIndex p xs \<noteq> - 1" by (simp add: findIndex_none)
  let ?k = "nat (findIndex p xs)"
  from findIndex_found [OF ne] have k: "0 \<le> findIndex p xs" "?k < length xs" "p (xs ! ?k)"
    "\<forall>j < ?k. \<not> p (xs ! j)" by auto
  have "\<not> ?k < i" using before k(3) by auto
  moreover have "\<not> i < ?k" using k(4) pi by auto
  ultimately have "?k = i" by simp
  with k(1) show ?thesis by simp
qed

subsection \<open>What \<open>updateStoreItem\<close> does to each part of the world\<close>

lemma updateStoreItem_allItems:
  "allItems (updateStoreItem opts r w) =
     (if findIndex (\<lambda>e. getUid opts (props (item e)) = getUid opts (props r)) (allItems w) = - 1
      then allItems w @
        [\<lparr>item = \<lparr>addr = nextAddr (rt w), props = props r\<rparr>, lastFetched = clock w (ticks w)\<rparr>]
      else splice1
        (findIndex (\<lambda>e. getUid opts (props (item e)) = getUid opts (props r)) (allItems w))
        \<lparr>item = \<lparr>addr = nextAddr (rt w), props = props r\<rparr>, lastFetched = clock w (ticks w)\<rparr>
        (allItems w))"
  by (simp add: updateStoreItem_def spread_def alloc_def newDate_def Let_def)

lemma updateStoreItem_frame:
  "lastFetchedAllItems (updateStoreItem opts r w) = lastFetchedAllItems w"
  "gettingAllItems (updateStoreItem opts r w) = gettingAllItems w"
  "clock (updateStoreItem opts r w) = clock w"
  "ticks (updateStoreItem opts r w) = Suc (ticks w)"
  "rt (updateStoreItem opts r w) = (rt w)\<lparr>nextAddr := Suc (nextAddr (rt w))\<rparr>"
  "calls (updateStoreItem opts r w) = calls w"
  "console (updateStoreItem opts r w) = console w"
  by (simp_all add: updateStoreItem_def spread_def alloc_def newDate_def Let_def)

text \<open>No entry has the identifier of the record: the record is put at the end.\<close>

lemma updateStoreItem_append:
  assumes "\<forall>e \<in> set (allItems w). entryUid opts e \<noteq> getUid opts (props r)"
  shows "allItems (updateStoreItem opts r w) =
           allItems w @
             [\<lparr>item = \<lparr>addr = nextAddr (rt w), props = props r\<rparr>, lastFetched = clock w (ticks w)\<rparr>]"
proof -
  have "findIndex (\<lambda>e. getUid opts (props (item e)) = getUid opts (props r)) (allItems w) = - 1"
    using assms by (simp add: findIndex_none entryUid_def)
  then show ?thesis by (simp add: updateStoreItem_allItems)
qed

text \<open>The first entry with the identifier of the record is at \<open>i\<close>: the record is put
  there.\<close>

lemma updateStoreItem_replace:
  assumes "i < length (allItems w)"
    and "entryUid opts (allItems w ! i) = getUid opts (props r)"
    and "\<forall>j < i. entryUid opts (allItems w ! j) \<noteq> getUid opts (props r)"
  shows "allItems (updateStoreItem opts r w) =
           (allItems w)
             [i := \<lparr>item = \<lparr>addr = nextAddr (rt w), props = props r\<rparr>,
                    lastFetched = clock w (ticks w)\<rparr>]"
proof -
  let ?p = "\<lambda>e. getUid opts (props (item e)) = getUid opts (props r)"
  have idx: "findIndex ?p (allItems w) = int i"
    using assms by (intro first_index_unique) (simp_all add: entryUid_def)
  then have "findIndex ?p (allItems w) \<noteq> - 1" by simp
  then show ?thesis
    using assms(1) by (simp add: updateStoreItem_allItems idx splice1_update)
qed

text \<open>One of the two cases applies.\<close>

lemma updateStoreItem_cases:
  "(\<forall>e \<in> set (allItems w). entryUid opts e \<noteq> u) \<or>
   (\<exists>i < length (allItems w). entryUid opts (allItems w ! i) = u \<and>
      (\<forall>j < i. entryUid opts (allItems w ! j) \<noteq> u))"
proof (cases "findIndex (\<lambda>e. entryUid opts e = u) (allItems w) = - 1")
  case True
  then show ?thesis by (simp add: findIndex_none)
next
  case False
  from findIndex_found [OF False] show ?thesis by blast
qed

subsection \<open>What the callback of \<open>items.map\<close> builds\<close>

lemma stampItems_snd: "snd (stampItems xs w) = w\<lparr>ticks := ticks w + length xs\<rparr>"
  by (induction xs arbitrary: w) (simp_all add: newDate_def split_def Let_def)

lemma stampItems_length: "length (fst (stampItems xs w)) = length xs"
  by (induction xs arbitrary: w) (simp_all add: newDate_def split_def Let_def)

lemma stampItems_item: "map item (fst (stampItems xs w)) = xs"
  by (induction xs arbitrary: w) (simp_all add: newDate_def split_def Let_def)

lemma stampItems_nth:
  "i < length xs \<Longrightarrow>
     fst (stampItems xs w) ! i = \<lparr>item = xs ! i, lastFetched = clock w (ticks w + i)\<rparr>"
proof (induction xs arbitrary: w i)
  case Nil
  then show ?case by simp
next
  case (Cons x xs)
  show ?case
  proof (cases i)
    case 0
    then show ?thesis by (simp add: newDate_def split_def Let_def)
  next
    case (Suc j)
    with Cons.prems have j: "j < length xs" by simp
    have "fst (stampItems (x # xs) w) ! i = fst (stampItems xs (snd (newDate w))) ! j"
      using Suc by (simp add: split_def Let_def)
    also have "\<dots> =
        \<lparr>item = xs ! j, lastFetched = clock (snd (newDate w)) (ticks (snd (newDate w)) + j)\<rparr>"
      by (rule Cons.IH [OF j])
    finally show ?thesis using Suc by (simp add: newDate_def)
  qed
qed

subsection \<open>More on \<open>updateStoreItem\<close>\<close>

text \<open>Every entry of another identifier stays where it is, as it is.\<close>

lemma updateStoreItem_others:
  assumes "i < length (allItems w)"
    and "entryUid opts (allItems w ! i) \<noteq> getUid opts (props r)"
  shows "i < length (allItems (updateStoreItem opts r w)) \<and>
         allItems (updateStoreItem opts r w) ! i = allItems w ! i"
proof -
  from updateStoreItem_cases [of w opts "getUid opts (props r)"]
  show ?thesis
  proof
    assume "\<forall>e \<in> set (allItems w). entryUid opts e \<noteq> getUid opts (props r)"
    then show ?thesis
      using assms(1) by (simp add: updateStoreItem_append nth_append)
  next
    assume "\<exists>k < length (allItems w). entryUid opts (allItems w ! k) = getUid opts (props r) \<and>
      (\<forall>j < k. entryUid opts (allItems w ! j) \<noteq> getUid opts (props r))"
    then obtain k where k: "k < length (allItems w)"
      "entryUid opts (allItems w ! k) = getUid opts (props r)"
      "\<forall>j < k. entryUid opts (allItems w ! j) \<noteq> getUid opts (props r)" by blast
    from k(2) assms(2) have "k \<noteq> i" by auto
    then show ?thesis
      using assms(1) by (simp add: updateStoreItem_replace [OF k])
  qed
qed

text \<open>The identifiers of the entries after an upsert.\<close>

lemma updateStoreItem_uids:
  "map (entryUid opts) (allItems (updateStoreItem opts r w)) =
     (if getUid opts (props r) \<in> entryUid opts ` set (allItems w)
      then map (entryUid opts) (allItems w)
      else map (entryUid opts) (allItems w) @ [getUid opts (props r)])"
proof -
  from updateStoreItem_cases [of w opts "getUid opts (props r)"]
  show ?thesis
  proof
    assume a: "\<forall>e \<in> set (allItems w). entryUid opts e \<noteq> getUid opts (props r)"
    then have "getUid opts (props r) \<notin> entryUid opts ` set (allItems w)" by auto
    then show ?thesis
      by (simp add: updateStoreItem_append [OF a] entryUid_def)
  next
    assume "\<exists>k < length (allItems w). entryUid opts (allItems w ! k) = getUid opts (props r) \<and>
      (\<forall>j < k. entryUid opts (allItems w ! j) \<noteq> getUid opts (props r))"
    then obtain k where k: "k < length (allItems w)"
      "entryUid opts (allItems w ! k) = getUid opts (props r)"
      "\<forall>j < k. entryUid opts (allItems w ! j) \<noteq> getUid opts (props r)" by blast
    from k(1,2) have mem: "getUid opts (props r) \<in> entryUid opts ` set (allItems w)"
      by (metis imageI nth_mem)
    have "map (entryUid opts) (allItems (updateStoreItem opts r w)) =
        (map (entryUid opts) (allItems w))[k := getUid opts (props r)]"
      by (simp add: updateStoreItem_replace [OF k] map_update entryUid_def)
    also have "\<dots> = (map (entryUid opts) (allItems w))[k := map (entryUid opts) (allItems w) ! k]"
      using k(1,2) by simp
    also have "\<dots> = map (entryUid opts) (allItems w)" by (rule list_update_id)
    finally show ?thesis using mem by simp
  qed
qed

lemma filter_update_single:
  "i < length xs \<Longrightarrow> P (xs ! i) \<Longrightarrow> P y \<Longrightarrow> length (filter P xs) \<le> 1 \<Longrightarrow>
     filter P (xs[i := y]) = [y]"
proof (induction xs arbitrary: i)
  case Nil
  then show ?case by simp
next
  case (Cons x xs)
  show ?case
  proof (cases i)
    case 0
    with Cons.prems have "P x" and "length (filter P xs) = 0" by auto
    then have "filter P xs = []" by simp
    with 0 Cons.prems(3) show ?thesis by simp
  next
    case (Suc j)
    with Cons.prems have j: "j < length xs" and pj: "P (xs ! j)" by auto
    from j pj have "xs ! j \<in> set (filter P xs)" by simp
    then have pos: "0 < length (filter P xs)" by (metis length_pos_if_in_set)
    with Cons.prems(4) have nx: "\<not> P x" by (auto split: if_splits)
    with Cons.prems(4) have "length (filter P xs) \<le> 1" by simp
    from Cons.IH [OF j pj Cons.prems(3) this] nx Suc show ?thesis by simp
  qed
qed

text \<open>When at most one entry has the identifier of the record, then after the upsert
  exactly one has, and it is the new one.\<close>

lemma updateStoreItem_one_entry:
  assumes "length (filter (\<lambda>e. entryUid opts e = getUid opts (props r)) (allItems w)) \<le> 1"
  shows "filter (\<lambda>e. entryUid opts e = getUid opts (props r)) (allItems (updateStoreItem opts r w)) =
           [\<lparr>item = \<lparr>addr = nextAddr (rt w), props = props r\<rparr>, lastFetched = clock w (ticks w)\<rparr>]"
proof -
  let ?P = "\<lambda>e. entryUid opts e = getUid opts (props r)"
  let ?E = "\<lparr>item = \<lparr>addr = nextAddr (rt w), props = props r\<rparr>, lastFetched = clock w (ticks w)\<rparr>"
  have PE: "?P ?E" by (simp add: entryUid_def)
  from updateStoreItem_cases [of w opts "getUid opts (props r)"]
  show ?thesis
  proof
    assume a: "\<forall>e \<in> set (allItems w). entryUid opts e \<noteq> getUid opts (props r)"
    then have "filter ?P (allItems w) = []" by (simp add: filter_empty_conv)
    then show ?thesis using PE by (simp add: updateStoreItem_append [OF a])
  next
    assume "\<exists>k < length (allItems w). entryUid opts (allItems w ! k) = getUid opts (props r) \<and>
      (\<forall>j < k. entryUid opts (allItems w ! j) \<noteq> getUid opts (props r))"
    then obtain k where k: "k < length (allItems w)"
      "entryUid opts (allItems w ! k) = getUid opts (props r)"
      "\<forall>j < k. entryUid opts (allItems w ! j) \<noteq> getUid opts (props r)" by blast
    have "filter ?P ((allItems w)[k := ?E]) = [?E]"
      using k(1) k(2) PE assms by (rule filter_update_single)
    then show ?thesis by (simp add: updateStoreItem_replace [OF k])
  qed
qed

subsection \<open>The operations when the Backend resolves\<close>

lemma updateItem_resolved:
  "fst (opts_updateItem opts id' x (rt w)) = Resolved u \<Longrightarrow>
     updateItem opts id' x w =
       (Some u,
        updateStoreItem opts u
          (w\<lparr>calls := calls w @ [CallUpdateItem id' x],
             rt := snd (opts_updateItem opts id' x (rt w))\<rparr>))"
  by (simp add: updateItem_def Let_def split_def)

lemma createItem_resolved:
  "fst (opts_createItem opts x (rt w)) = Resolved u \<Longrightarrow>
     createItem opts x w =
       (Some u,
        updateStoreItem opts u
          (w\<lparr>calls := calls w @ [CallCreateItem x], rt := snd (opts_createItem opts x (rt w))\<rparr>))"
  by (simp add: createItem_def Let_def split_def)



subsection \<open>One entry for each identifier\<close>

lemma updateStoreItem_distinct:
  assumes "distinct (map (entryUid opts) (allItems w))"
  shows "distinct (map (entryUid opts) (allItems (updateStoreItem opts r w)))"
  using assms by (simp add: updateStoreItem_uids)

lemma stampItems_uids:
  "map (entryUid opts) (fst (stampItems xs w)) = map (\<lambda>x. getUid opts (props x)) xs"
proof -
  have "map (entryUid opts) (fst (stampItems xs w)) =
      map (\<lambda>x. getUid opts (props x)) (map item (fst (stampItems xs w)))"
    by (simp add: entryUid_def)
  then show ?thesis by (simp only: stampItems_item)
qed

lemma getSingleItem_fetch_distinct:
  assumes "distinct (map (entryUid opts) (allItems w))"
  shows "distinct (map (entryUid opts) (allItems (snd (getSingleItem_fetch opts id' w))))"
proof (cases "fst (opts_getItem opts id' (rt w))")
  case (Rejected e)
  with assms show ?thesis by (simp add: getSingleItem_fetch_def Let_def split_def)
next
  case (Resolved res)
  show ?thesis
  proof (cases res)
    case None
    with Resolved assms show ?thesis by (simp add: getSingleItem_fetch_def Let_def split_def)
  next
    case (Some freshItem)
    let ?w2 = "w\<lparr>calls := calls w @ [CallGetItem id'], rt := snd (opts_getItem opts id' (rt w))\<rparr>"
    from assms have "distinct (map (entryUid opts) (allItems ?w2))" by simp
    from updateStoreItem_distinct [OF this, of freshItem] Some Resolved
    show ?thesis by (simp add: getSingleItem_fetch_def Let_def split_def)
  qed
qed

lemma getSingleItem_distinct:
  assumes "distinct (map (entryUid opts) (allItems w))"
  shows "distinct (map (entryUid opts) (allItems (snd (getSingleItem opts id' w))))"
proof (cases "find (\<lambda>e. getUid opts (props (item e)) = id') (allItems w)")
  case None
  with getSingleItem_fetch_distinct [OF assms] show ?thesis by (simp add: getSingleItem_def)
next
  case (Some existingItem)
  let ?v = "w\<lparr>ticks := Suc (ticks w)\<rparr>"
  from assms have "distinct (map (entryUid opts) (allItems ?v))" by simp
  from getSingleItem_fetch_distinct [OF this, of id'] Some assms show ?thesis
    by (simp add: getSingleItem_def cacheHasExpired_def newDate_def spread_def alloc_def
        Let_def split_def)
qed

lemma updateItem_distinct:
  assumes "distinct (map (entryUid opts) (allItems w))"
  shows "distinct (map (entryUid opts) (allItems (snd (updateItem opts id' x w))))"
proof (cases "fst (opts_updateItem opts id' x (rt w))")
  case (Rejected e)
  with assms show ?thesis by (simp add: updateItem_def Let_def split_def)
next
  case (Resolved u)
  let ?w2 = "w\<lparr>calls := calls w @ [CallUpdateItem id' x],
                rt := snd (opts_updateItem opts id' x (rt w))\<rparr>"
  from assms have "distinct (map (entryUid opts) (allItems ?w2))" by simp
  from updateStoreItem_distinct [OF this, of u] show ?thesis
    by (simp add: updateItem_resolved [OF Resolved])
qed

lemma createItem_distinct:
  assumes "distinct (map (entryUid opts) (allItems w))"
  shows "distinct (map (entryUid opts) (allItems (snd (createItem opts x w))))"
proof (cases "fst (opts_createItem opts x (rt w))")
  case (Rejected e)
  with assms show ?thesis by (simp add: createItem_def Let_def split_def)
next
  case (Resolved u)
  let ?w2 = "w\<lparr>calls := calls w @ [CallCreateItem x], rt := snd (opts_createItem opts x (rt w))\<rparr>"
  from assms have "distinct (map (entryUid opts) (allItems ?w2))" by simp
  from updateStoreItem_distinct [OF this, of u] show ?thesis
    by (simp add: createItem_resolved [OF Resolved])
qed

text \<open>\<open>getAllItems\<close> leaves the entries as they are or makes them of the records it
  fetched.\<close>

lemma getAllItems_uids:
  "allItems (snd (getAllItems opts w)) = allItems w \<or>
   (\<exists>items. fst (opts_getAllItems opts (rt w)) = Resolved items \<and>
      map (entryUid opts) (allItems (snd (getAllItems opts w))) =
        map (\<lambda>x. getUid opts (props x)) items)"
proof (cases "fst (opts_getAllItems opts (rt w))")
  case (Rejected e)
  then have "allItems (snd (getAllItems opts w)) = allItems w"
    by (simp add: getAllItems_def cacheHasExpired_def newDate_def Let_def split_def
        split: option.splits)
  then show ?thesis by simp
next
  case (Resolved items)
  then have "allItems (snd (getAllItems opts w)) = allItems w \<or>
      map (entryUid opts) (allItems (snd (getAllItems opts w))) =
        map (\<lambda>x. getUid opts (props x)) items"
    by (simp add: getAllItems_def cacheHasExpired_def newDate_def Let_def split_def
        stampItems_uids split: option.splits)
  with Resolved show ?thesis by blast
qed

text \<open>It makes them so only when the cache has no answer that is young enough.\<close>

lemma getAllItems_fetched_uids:
  "allItems (snd (getAllItems opts w)) = allItems w \<or>
   ((case lastFetchedAllItems w of None \<Rightarrow> True
     | Some t \<Rightarrow> clock w (ticks w) - t > allItemsCacheMs opts) \<and>
    (\<exists>items. fst (opts_getAllItems opts (rt w)) = Resolved items \<and>
       map (entryUid opts) (allItems (snd (getAllItems opts w))) =
         map (\<lambda>x. getUid opts (props x)) items))"
proof (cases "case lastFetchedAllItems w of None \<Rightarrow> True
     | Some t \<Rightarrow> clock w (ticks w) - t > allItemsCacheMs opts")
  case False
  then have "allItems (snd (getAllItems opts w)) = allItems w"
    by (simp add: getAllItems_def cacheHasExpired_def newDate_def Let_def split_def
        split: option.splits)
  then show ?thesis by simp
next
  case True
  from getAllItems_uids [of opts w] True show ?thesis by blast
qed

lemma getAllItems_distinct:
  assumes "distinct (map (entryUid opts) (allItems w))"
    and "(case lastFetchedAllItems w of None \<Rightarrow> True
          | Some t \<Rightarrow> clock w (ticks w) - t > allItemsCacheMs opts) \<longrightarrow>
         (\<forall>items. fst (opts_getAllItems opts (rt w)) = Resolved items \<longrightarrow>
            distinct (map (\<lambda>x. getUid opts (props x)) items))"
  shows "distinct (map (entryUid opts) (allItems (snd (getAllItems opts w))))"
proof -
  from getAllItems_fetched_uids [of opts w] show ?thesis
  proof
    assume "allItems (snd (getAllItems opts w)) = allItems w"
    with assms(1) show ?thesis by simp
  next
    assume a: "(case lastFetchedAllItems w of None \<Rightarrow> True
        | Some t \<Rightarrow> clock w (ticks w) - t > allItemsCacheMs opts) \<and>
      (\<exists>items. fst (opts_getAllItems opts (rt w)) = Resolved items \<and>
        map (entryUid opts) (allItems (snd (getAllItems opts w))) =
          map (\<lambda>x. getUid opts (props x)) items)"
    then obtain items where r: "fst (opts_getAllItems opts (rt w)) = Resolved items"
      and m: "map (entryUid opts) (allItems (snd (getAllItems opts w))) =
        map (\<lambda>x. getUid opts (props x)) items" by blast
    from assms(2) a r have "distinct (map (\<lambda>x. getUid opts (props x)) items)" by blast
    then show ?thesis by (simp only: m)
  qed
qed

text \<open>Along a sequence of operations.\<close>

lemma performAll_distinct:
  "distinct (map (entryUid opts) (allItems w)) \<Longrightarrow>
   (\<forall>k < length ops.
      ops ! k = GetAllItems \<and>
      (case lastFetchedAllItems (performAll opts (take k ops) w) of None \<Rightarrow> True
       | Some t \<Rightarrow>
           clock (performAll opts (take k ops) w) (ticks (performAll opts (take k ops) w)) - t
             > allItemsCacheMs opts) \<longrightarrow>
      (\<forall>items. fst (opts_getAllItems opts (rt (performAll opts (take k ops) w))) = Resolved items
         \<longrightarrow> distinct (map (\<lambda>x. getUid opts (props x)) items))) \<Longrightarrow>
   distinct (map (entryUid opts) (allItems (performAll opts ops w)))"
proof (induction ops arbitrary: w)
  case Nil
  then show ?case by simp
next
  case (Cons op ops)
  have step: "distinct (map (entryUid opts) (allItems (perform opts op w)))"
  proof (cases op)
    case GetAllItems
    from Cons.prems(2) have "(op # ops) ! 0 = GetAllItems \<and>
      (case lastFetchedAllItems (performAll opts (take 0 (op # ops)) w) of None \<Rightarrow> True
       | Some t \<Rightarrow>
           clock (performAll opts (take 0 (op # ops)) w)
             (ticks (performAll opts (take 0 (op # ops)) w)) - t > allItemsCacheMs opts) \<longrightarrow>
      (\<forall>items. fst (opts_getAllItems opts (rt (performAll opts (take 0 (op # ops)) w))) =
          Resolved items \<longrightarrow> distinct (map (\<lambda>x. getUid opts (props x)) items))"
      by blast
    moreover have "performAll opts (take 0 (op # ops)) w = w" by simp
    ultimately have "(op # ops) ! 0 = GetAllItems \<and>
        (case lastFetchedAllItems w of None \<Rightarrow> True
          | Some t \<Rightarrow> clock w (ticks w) - t > allItemsCacheMs opts) \<longrightarrow>
        (\<forall>items. fst (opts_getAllItems opts (rt w)) = Resolved items \<longrightarrow>
        distinct (map (\<lambda>x. getUid opts (props x)) items))" by (simp only:)
    with GetAllItems have "(case lastFetchedAllItems w of None \<Rightarrow> True
          | Some t \<Rightarrow> clock w (ticks w) - t > allItemsCacheMs opts) \<longrightarrow>
        (\<forall>items. fst (opts_getAllItems opts (rt w)) = Resolved items \<longrightarrow>
        distinct (map (\<lambda>x. getUid opts (props x)) items))" by simp
    from getAllItems_distinct [OF Cons.prems(1) this] GetAllItems show ?thesis by simp
  next
    case (GetSingleItem id')
    with getSingleItem_distinct [OF Cons.prems(1)] show ?thesis by simp
  next
    case (UpdateItem id' x)
    with updateItem_distinct [OF Cons.prems(1)] show ?thesis by simp
  next
    case (CreateItem x)
    with createItem_distinct [OF Cons.prems(1)] show ?thesis by simp
  qed
  have rest: "\<forall>k < length ops.
      ops ! k = GetAllItems \<and>
      (case lastFetchedAllItems (performAll opts (take k ops) (perform opts op w)) of
         None \<Rightarrow> True
       | Some t \<Rightarrow>
           clock (performAll opts (take k ops) (perform opts op w))
             (ticks (performAll opts (take k ops) (perform opts op w))) - t
             > allItemsCacheMs opts) \<longrightarrow>
      (\<forall>items. fst (opts_getAllItems opts (rt (performAll opts (take k ops) (perform opts op w)))) =
          Resolved items \<longrightarrow> distinct (map (\<lambda>x. getUid opts (props x)) items))"
  proof (intro allI impI)
    fix k items
    assume k: "k < length ops"
      and g: "ops ! k = GetAllItems \<and>
        (case lastFetchedAllItems (performAll opts (take k ops) (perform opts op w)) of
           None \<Rightarrow> True
         | Some t \<Rightarrow>
             clock (performAll opts (take k ops) (perform opts op w))
               (ticks (performAll opts (take k ops) (perform opts op w))) - t
               > allItemsCacheMs opts)"
      and r: "fst (opts_getAllItems opts (rt (performAll opts (take k ops) (perform opts op w)))) =
        Resolved items"
    have t: "performAll opts (take (Suc k) (op # ops)) w =
        performAll opts (take k ops) (perform opts op w)" by simp
    from k have k': "Suc k < length (op # ops)" by simp
    from g have g': "(op # ops) ! Suc k = GetAllItems \<and>
        (case lastFetchedAllItems (performAll opts (take (Suc k) (op # ops)) w) of
           None \<Rightarrow> True
         | Some t \<Rightarrow>
             clock (performAll opts (take (Suc k) (op # ops)) w)
               (ticks (performAll opts (take (Suc k) (op # ops)) w)) - t
               > allItemsCacheMs opts)"
      unfolding t by simp
    from r have r': "fst (opts_getAllItems opts
        (rt (performAll opts (take (Suc k) (op # ops)) w))) = Resolved items"
      unfolding t .
    from Cons.prems(2) k' g' r' show "distinct (map (\<lambda>x. getUid opts (props x)) items)"
      by blast
  qed
  from Cons.IH [OF step rest] show ?case by simp
qed

subsection \<open>The flag \<open>getting\<close>\<close>

lemma performHelpers_getting:
  "getting (fst (performHelpers opts ops (h, w))) = (getting h \<and> Get \<notin> set ops)"
proof (induction ops arbitrary: h w)
  case Nil
  show ?case by simp
next
  case (Cons op ops)
  obtain h' w' where step: "performHelper opts op (h, w) = (h', w')"
    by (cases "performHelper opts op (h, w)")
  have g: "getting h' = (getting h \<and> op \<noteq> Get)"
  proof (cases op)
    case Get
    with step show ?thesis by (auto simp: get_def Let_def split_def)
  next
    case SaveItem
    with step show ?thesis
      by (auto simp: saveItem_def saveItem_begin_def saveItem_end_def Let_def split_def
          split: option.splits)
  next
    case (Store o')
    with step show ?thesis by auto
  qed
  from Cons.IH [of h' w'] step g show ?case by auto
qed

subsection \<open>The addresses of the stored objects\<close>












subsection \<open>Running the example\<close>

lemmas run_defs = getAllItems_def getSingleItem_def
  getSingleItem_fetch_def updateItem_def createItem_def updateStoreItem_def spread_def alloc_def
  newDate_def cacheHasExpired_def splice1_def Let_def split_def
  useTestStore_def api_orgs_get_def api_orgs_create_def api_org_get_def api_org_update_def
  mergeOrg_def asPartial_def db_def testStore_def defineCacheStore_def millisecondClock_def
  entryUid_def

section \<open>The whole collection\<close>

text \<open>
  C1. When \<open>lastFetchedAllItems\<close> is set, to \<open>t\<close>, and the clock read by
  \<open>cacheHasExpired\<close> shows a time at most \<open>allItemsCacheMs\<close> after \<open>t\<close>, \<open>getAllItems\<close>
  returns the entries of the cache as they are, calls no function of the Backend (the log
  of calls and the runtime of the Backend are as before) and leaves the entries and
  \<open>lastFetchedAllItems\<close> as they were.
\<close>

theorem getAllItems_cache_hit:
  assumes "lastFetchedAllItems w = Some t"
    and "clock w (ticks w) - t \<le> allItemsCacheMs opts"
  shows "fst (getAllItems opts w) = Some (allItems w) \<and>
         calls (snd (getAllItems opts w)) = calls w \<and>
         rt (snd (getAllItems opts w)) = rt w \<and>
         allItems (snd (getAllItems opts w)) = allItems w \<and>
         lastFetchedAllItems (snd (getAllItems opts w)) = lastFetchedAllItems w"
  using assms by (simp add: getAllItems_def cacheHasExpired_def newDate_def Let_def)

text \<open>The store of the example after one \<open>getAllItems\<close>: the four records were stamped
  100 to 103 and the collection 104; the clock shows 105 at the next call, which answers
  from the cache.\<close>

theorem getAllItems_cache_hit_witness:
  "lastFetchedAllItems (performAll useTestStore [GetAllItems] testStore) = Some 104 \<and>
   clock (performAll useTestStore [GetAllItems] testStore)
     (ticks (performAll useTestStore [GetAllItems] testStore)) - 104
     \<le> allItemsCacheMs useTestStore \<and>
   fst (getAllItems useTestStore (performAll useTestStore [GetAllItems] testStore)) =
     Some (allItems (performAll useTestStore [GetAllItems] testStore)) \<and>
   length (allItems (performAll useTestStore [GetAllItems] testStore)) = 4 \<and>
   calls (snd (getAllItems useTestStore (performAll useTestStore [GetAllItems] testStore))) =
     [CallGetAllItems]"
proof -
  let ?w = "performAll useTestStore [GetAllItems] testStore"
  have h1: "lastFetchedAllItems ?w = Some 104" by (simp add: run_defs)
  have h2: "clock ?w (ticks ?w) - 104 \<le> allItemsCacheMs useTestStore" by (simp add: run_defs)
  have h3: "length (allItems ?w) = 4" by (simp add: run_defs)
  have h4: "calls ?w = [CallGetAllItems]" by (simp add: run_defs)
  from getAllItems_cache_hit [OF h1 h2] h1 h2 h3 h4 show ?thesis by simp
qed

text \<open>
  C2. When \<open>lastFetchedAllItems\<close> is not set, or the clock read by \<open>cacheHasExpired\<close>
  shows a time more than \<open>allItemsCacheMs\<close> after it, and the fetch-all of the Backend
  resolves with \<open>items\<close>, then after \<open>getAllItems\<close> the cache holds exactly the records
  \<open>items\<close>, in their order, whatever it held before. The current time is read from the
  clock once for each record and once more for the collection: record \<open>i\<close> is stamped
  with reading \<open>first + i\<close> and \<open>lastFetchedAllItems\<close> is reading
  \<open>first + length items\<close>, where \<open>first\<close> is the reading that follows the check of the
  time to live. If the clock shows one time \<open>now\<close> at all these readings, every stamp and
  \<open>lastFetchedAllItems\<close> are \<open>now\<close>. The new sequence is returned, and the Backend was
  called once.
\<close>

theorem getAllItems_fetch:
  assumes "case lastFetchedAllItems w of None \<Rightarrow> True
           | Some t \<Rightarrow> clock w (ticks w) - t > allItemsCacheMs opts"
    and "opts_getAllItems opts (rt w) = (Resolved items, r)"
  shows "length (allItems (snd (getAllItems opts w))) = length items \<and>
         map item (allItems (snd (getAllItems opts w))) = items \<and>
         (\<forall>i < length items.
            lastFetched (allItems (snd (getAllItems opts w)) ! i) =
              clock w ((case lastFetchedAllItems w of None \<Rightarrow> ticks w | Some t \<Rightarrow> Suc (ticks w))
                         + i)) \<and>
         lastFetchedAllItems (snd (getAllItems opts w)) =
           Some (clock w ((case lastFetchedAllItems w of None \<Rightarrow> ticks w | Some t \<Rightarrow> Suc (ticks w))
                            + length items)) \<and>
         ((\<forall>i \<le> length items.
             clock w ((case lastFetchedAllItems w of None \<Rightarrow> ticks w | Some t \<Rightarrow> Suc (ticks w))
                        + i) = now) \<longrightarrow>
            (\<forall>e \<in> set (allItems (snd (getAllItems opts w))). lastFetched e = now) \<and>
            lastFetchedAllItems (snd (getAllItems opts w)) = Some now) \<and>
         fst (getAllItems opts w) = Some (allItems (snd (getAllItems opts w))) \<and>
         calls (snd (getAllItems opts w)) = calls w @ [CallGetAllItems]"
proof -
  let ?first = "case lastFetchedAllItems w of None \<Rightarrow> ticks w | Some t \<Rightarrow> Suc (ticks w)"
  let ?w4 = "w\<lparr>gettingAllItems := True, ticks := ?first,
                calls := calls w @ [CallGetAllItems], rt := r\<rparr>"
  let ?w5 = "snd (stampItems items ?w4)"
  have g: "getAllItems opts w =
      (Some (fst (stampItems items ?w4)),
       ?w5\<lparr>allItems := fst (stampItems items ?w4),
           ticks := Suc (ticks ?w5),
           lastFetchedAllItems := Some (clock ?w5 (ticks ?w5)),
           gettingAllItems := False\<rparr>)"
  proof (cases "lastFetchedAllItems w")
    case None
    then show ?thesis
      using assms(2) by (simp add: getAllItems_def newDate_def Let_def split_def)
  next
    case (Some t)
    with assms(1) have "clock w (ticks w) - t > allItemsCacheMs opts" by simp
    with Some show ?thesis
      using assms(2)
      by (simp add: getAllItems_def cacheHasExpired_def newDate_def Let_def split_def)
  qed
  have len: "length (allItems (snd (getAllItems opts w))) = length items"
    unfolding g by (simp add: stampItems_length)
  have items: "map item (allItems (snd (getAllItems opts w))) = items"
    unfolding g by (simp add: stampItems_item)
  have stamps: "\<forall>i < length items.
      lastFetched (allItems (snd (getAllItems opts w)) ! i) = clock w (?first + i)"
    unfolding g by (simp add: stampItems_nth)
  have coll: "lastFetchedAllItems (snd (getAllItems opts w)) =
      Some (clock w (?first + length items))"
    unfolding g by (simp add: stampItems_snd)
  have same: "(\<forall>i \<le> length items. clock w (?first + i) = now) \<longrightarrow>
      (\<forall>e \<in> set (allItems (snd (getAllItems opts w))). lastFetched e = now) \<and>
      lastFetchedAllItems (snd (getAllItems opts w)) = Some now"
  proof (intro impI conjI ballI)
    fix e
    assume c: "\<forall>i \<le> length items. clock w (?first + i) = now"
      and e: "e \<in> set (allItems (snd (getAllItems opts w)))"
    from e obtain i where i: "i < length (allItems (snd (getAllItems opts w)))"
      and ei: "allItems (snd (getAllItems opts w)) ! i = e"
      by (auto simp: in_set_conv_nth)
    from i len have il: "i < length items" by simp
    with stamps ei have "lastFetched e = clock w (?first + i)" by auto
    with c il show "lastFetched e = now" by simp
  next
    assume c: "\<forall>i \<le> length items. clock w (?first + i) = now"
    with coll show "lastFetchedAllItems (snd (getAllItems opts w)) = Some now" by simp
  qed
  have res: "fst (getAllItems opts w) = Some (allItems (snd (getAllItems opts w)))"
    unfolding g by simp
  have log: "calls (snd (getAllItems opts w)) = calls w @ [CallGetAllItems]"
    unfolding g by (simp add: stampItems_snd)
  from len items stamps coll same res log show ?thesis by blast
qed

text \<open>The store of the example at its start: nothing was fetched, the fake API answers
  with the four records of its database, and the clock stamps them 100 to 103 and the
  collection 104. On a clock that stands still at 100 all five stamps are 100.\<close>

theorem getAllItems_fetch_witness:
  "(case lastFetchedAllItems testStore of None \<Rightarrow> True
    | Some t \<Rightarrow> clock testStore (ticks testStore) - t > allItemsCacheMs useTestStore) \<and>
   opts_getAllItems useTestStore (rt testStore) = (Resolved (backend db), db) \<and>
   length (backend db) = 4 \<and>
   length (allItems (snd (getAllItems useTestStore testStore))) = 4 \<and>
   map item (allItems (snd (getAllItems useTestStore testStore))) = backend db \<and>
   map lastFetched (allItems (snd (getAllItems useTestStore testStore))) = [100, 101, 102, 103] \<and>
   lastFetchedAllItems (snd (getAllItems useTestStore testStore)) = Some 104 \<and>
   list_all (\<lambda>e. lastFetched e = 100)
     (allItems (snd (getAllItems useTestStore (defineCacheStore (\<lambda>n. 100) db)))) \<and>
   lastFetchedAllItems (snd (getAllItems useTestStore (defineCacheStore (\<lambda>n. 100) db))) =
     Some 100"
proof -
  have h1: "case lastFetchedAllItems testStore of None \<Rightarrow> True
    | Some t \<Rightarrow> clock testStore (ticks testStore) - t > allItemsCacheMs useTestStore"
    by (simp add: run_defs)
  have h2: "opts_getAllItems useTestStore (rt testStore) = (Resolved (backend db), db)"
    by (simp add: run_defs)
  have h3: "length (backend db) = 4" by (simp add: db_def)
  have h4: "map lastFetched (allItems (snd (getAllItems useTestStore testStore))) =
      [100, 101, 102, 103]"
    by (simp add: run_defs)
  have h5: "lastFetchedAllItems testStore = None" by (simp add: run_defs)
  have h6: "clock testStore (ticks testStore + 4) = 104" by (simp add: run_defs)
  from getAllItems_fetch [OF h1 h2] h3 h5 h6
  have a: "length (allItems (snd (getAllItems useTestStore testStore))) = 4"
    "map item (allItems (snd (getAllItems useTestStore testStore))) = backend db"
    "lastFetchedAllItems (snd (getAllItems useTestStore testStore)) = Some 104"
    by simp_all
  let ?still = "defineCacheStore (\<lambda>n. 100) db :: (Org, Org obj list) world"
  have s1: "case lastFetchedAllItems ?still of None \<Rightarrow> True
    | Some t \<Rightarrow> clock ?still (ticks ?still) - t > allItemsCacheMs useTestStore"
    by (simp add: defineCacheStore_def)
  have s2: "opts_getAllItems useTestStore (rt ?still) = (Resolved (backend db), db)"
    by (simp add: useTestStore_def api_orgs_get_def defineCacheStore_def)
  have s3: "\<forall>i \<le> length (backend db).
      clock ?still ((case lastFetchedAllItems ?still of None \<Rightarrow> ticks ?still
                     | Some t \<Rightarrow> Suc (ticks ?still)) + i) = 100"
    by (simp add: defineCacheStore_def)
  from getAllItems_fetch [OF s1 s2, where now = 100] s3
  have b: "\<forall>e \<in> set (allItems (snd (getAllItems useTestStore ?still))). lastFetched e = 100"
    "lastFetchedAllItems (snd (getAllItems useTestStore ?still)) = Some 100"
    by blast+
  from b(1) have b1: "list_all (\<lambda>e. lastFetched e = 100)
      (allItems (snd (getAllItems useTestStore ?still)))"
    by (simp add: list_all_iff)
  from h1 h2 h3 h4 a b1 b(2) show ?thesis by blast
qed

section \<open>The rule of upsert\<close>

text \<open>
  C3, amended. \<open>updateStoreItem\<close> builds an entry of a copy of the record and the clock's
  reading. When no entry has the identifier of the record, the new entry is put at the
  end; otherwise it takes the place of the first entry with that identifier and all
  positions are kept. When at most one entry had the identifier before, two upserts of
  records with that identifier leave exactly one entry with it, which holds the second
  record and the reading of the second upsert.
\<close>

theorem updateStoreItem_upsert:
  "((\<forall>e \<in> set (allItems w). entryUid opts e \<noteq> getUid opts (props newItem)) \<longrightarrow>
      allItems (updateStoreItem opts newItem w) =
        allItems w @
          [\<lparr>item = \<lparr>addr = nextAddr (rt w), props = props newItem\<rparr>,
            lastFetched = clock w (ticks w)\<rparr>]) \<and>
   (\<forall>i < length (allItems w).
      entryUid opts (allItems w ! i) = getUid opts (props newItem) \<and>
      (\<forall>j < i. entryUid opts (allItems w ! j) \<noteq> getUid opts (props newItem)) \<longrightarrow>
      allItems (updateStoreItem opts newItem w) =
        (allItems w)
          [i := \<lparr>item = \<lparr>addr = nextAddr (rt w), props = props newItem\<rparr>,
                 lastFetched = clock w (ticks w)\<rparr>]) \<and>
   (getUid opts (props second) = getUid opts (props newItem) \<and>
    length (filter (\<lambda>e. entryUid opts e = getUid opts (props newItem)) (allItems w)) \<le> 1 \<longrightarrow>
      filter (\<lambda>e. entryUid opts e = getUid opts (props newItem))
        (allItems (updateStoreItem opts second (updateStoreItem opts newItem w))) =
        [\<lparr>item = \<lparr>addr = Suc (nextAddr (rt w)), props = props second\<rparr>,
          lastFetched = clock w (Suc (ticks w))\<rparr>])"
proof -
  let ?u = "getUid opts (props newItem)"
  have app: "allItems (updateStoreItem opts newItem w) =
      allItems w @
        [\<lparr>item = \<lparr>addr = nextAddr (rt w), props = props newItem\<rparr>,
          lastFetched = clock w (ticks w)\<rparr>]"
    if "\<forall>e \<in> set (allItems w). entryUid opts e \<noteq> ?u"
    using that by (rule updateStoreItem_append)
  have rep: "allItems (updateStoreItem opts newItem w) =
      (allItems w)
        [i := \<lparr>item = \<lparr>addr = nextAddr (rt w), props = props newItem\<rparr>,
               lastFetched = clock w (ticks w)\<rparr>]"
    if "i < length (allItems w)" and "entryUid opts (allItems w ! i) = ?u"
      and "\<forall>j < i. entryUid opts (allItems w ! j) \<noteq> ?u" for i
    using that by (rule updateStoreItem_replace)
  have twice: "filter (\<lambda>e. entryUid opts e = ?u)
      (allItems (updateStoreItem opts second (updateStoreItem opts newItem w))) =
      [\<lparr>item = \<lparr>addr = Suc (nextAddr (rt w)), props = props second\<rparr>,
        lastFetched = clock w (Suc (ticks w))\<rparr>]"
    if same: "getUid opts (props second) = ?u"
      and le: "length (filter (\<lambda>e. entryUid opts e = ?u) (allItems w)) \<le> 1"
  proof -
    let ?w1 = "updateStoreItem opts newItem w"
    have "filter (\<lambda>e. entryUid opts e = ?u) (allItems ?w1) =
        [\<lparr>item = \<lparr>addr = nextAddr (rt w), props = props newItem\<rparr>,
          lastFetched = clock w (ticks w)\<rparr>]"
      using le by (rule updateStoreItem_one_entry)
    then have "length (filter (\<lambda>e. entryUid opts e = getUid opts (props second)) (allItems ?w1)) \<le> 1"
      by (simp add: same)
    from updateStoreItem_one_entry [OF this]
    show ?thesis by (simp add: same updateStoreItem_frame)
  qed
  from app rep twice show ?thesis by blast
qed

text \<open>The store of the example after \<open>getAllItems\<close>: a record 7 is put at the end, a
  record 2 takes the place at index 1, and of two records 2 the second remains.\<close>

theorem updateStoreItem_upsert_witness:
  "Num 7 \<notin> set (map (entryUid useTestStore)
      (allItems (performAll useTestStore [GetAllItems] testStore))) \<and>
   map (props \<circ> item)
     (allItems (updateStoreItem useTestStore
        \<lparr>addr = 1000, props = \<lparr>org_name = ''Org 7'', org_id = 7\<rparr>\<rparr>
        (performAll useTestStore [GetAllItems] testStore))) =
     [\<lparr>org_name = ''Org 1'', org_id = 1\<rparr>, \<lparr>org_name = ''Org 2'', org_id = 2\<rparr>,
      \<lparr>org_name = ''Org 3'', org_id = 3\<rparr>, \<lparr>org_name = ''Org 4'', org_id = 4\<rparr>,
      \<lparr>org_name = ''Org 7'', org_id = 7\<rparr>] \<and>
   entryUid useTestStore (allItems (performAll useTestStore [GetAllItems] testStore) ! 1) = Num 2 \<and>
   entryUid useTestStore (allItems (performAll useTestStore [GetAllItems] testStore) ! 0) \<noteq> Num 2 \<and>
   map (props \<circ> item)
     (allItems (updateStoreItem useTestStore
        \<lparr>addr = 1001, props = \<lparr>org_name = ''First'', org_id = 2\<rparr>\<rparr>
        (performAll useTestStore [GetAllItems] testStore))) =
     [\<lparr>org_name = ''Org 1'', org_id = 1\<rparr>, \<lparr>org_name = ''First'', org_id = 2\<rparr>,
      \<lparr>org_name = ''Org 3'', org_id = 3\<rparr>, \<lparr>org_name = ''Org 4'', org_id = 4\<rparr>] \<and>
   length (filter (\<lambda>e. entryUid useTestStore e = Num 2)
     (allItems (performAll useTestStore [GetAllItems] testStore))) \<le> 1 \<and>
   filter (\<lambda>e. entryUid useTestStore e = Num 2)
     (allItems (updateStoreItem useTestStore
        \<lparr>addr = 1002, props = \<lparr>org_name = ''Second'', org_id = 2\<rparr>\<rparr>
        (updateStoreItem useTestStore
           \<lparr>addr = 1001, props = \<lparr>org_name = ''First'', org_id = 2\<rparr>\<rparr>
           (performAll useTestStore [GetAllItems] testStore)))) =
     [\<lparr>item = \<lparr>addr = 5, props = \<lparr>org_name = ''Second'', org_id = 2\<rparr>\<rparr>, lastFetched = 106\<rparr>]"
proof -
  let ?w = "performAll useTestStore [GetAllItems] testStore"
  let ?n = "\<lparr>addr = 1000, props = \<lparr>org_name = ''Org 7'', org_id = 7\<rparr>\<rparr>"
  let ?a = "\<lparr>addr = 1001, props = \<lparr>org_name = ''First'', org_id = 2\<rparr>\<rparr>"
  let ?b = "\<lparr>addr = 1002, props = \<lparr>org_name = ''Second'', org_id = 2\<rparr>\<rparr>"
  have items: "allItems ?w =
     [\<lparr>item = \<lparr>addr = 0, props = \<lparr>org_name = ''Org 1'', org_id = 1\<rparr>\<rparr>, lastFetched = 100\<rparr>,
      \<lparr>item = \<lparr>addr = 1, props = \<lparr>org_name = ''Org 2'', org_id = 2\<rparr>\<rparr>, lastFetched = 101\<rparr>,
      \<lparr>item = \<lparr>addr = 2, props = \<lparr>org_name = ''Org 3'', org_id = 3\<rparr>\<rparr>, lastFetched = 102\<rparr>,
      \<lparr>item = \<lparr>addr = 3, props = \<lparr>org_name = ''Org 4'', org_id = 4\<rparr>\<rparr>, lastFetched = 103\<rparr>]"
    by (simp add: run_defs)
  have env: "nextAddr (rt ?w) = 4" "clock ?w (ticks ?w) = 105" "clock ?w (Suc (ticks ?w)) = 106"
    by (simp_all add: run_defs)
  have u: "getUid useTestStore (props ?n) = Num 7" "getUid useTestStore (props ?a) = Num 2"
    "getUid useTestStore (props ?b) = Num 2"
    by (simp_all add: useTestStore_def)
  have h1: "\<forall>e \<in> set (allItems ?w). entryUid useTestStore e \<noteq> Num 7"
    unfolding items by (simp add: entryUid_def useTestStore_def)
  have h2: "entryUid useTestStore (allItems ?w ! 1) = Num 2 \<and>
      (\<forall>j < 1. entryUid useTestStore (allItems ?w ! j) \<noteq> Num 2)"
    unfolding items by (simp add: entryUid_def useTestStore_def)
  have h3: "length (filter (\<lambda>e. entryUid useTestStore e = Num 2) (allItems ?w)) \<le> 1"
    unfolding items by (simp add: entryUid_def useTestStore_def)
  have len: "1 < length (allItems ?w)" unfolding items by simp
  from updateStoreItem_upsert [where w = ?w and opts = useTestStore and newItem = ?n] h1 u
  have c1: "allItems (updateStoreItem useTestStore ?n ?w) =
      allItems ?w @ [\<lparr>item = \<lparr>addr = nextAddr (rt ?w), props = props ?n\<rparr>,
                      lastFetched = clock ?w (ticks ?w)\<rparr>]"
    by simp
  from updateStoreItem_upsert [where w = ?w and opts = useTestStore and newItem = ?a
      and second = ?b] h2 h3 u len
  have c2: "allItems (updateStoreItem useTestStore ?a ?w) =
      (allItems ?w)[1 := \<lparr>item = \<lparr>addr = nextAddr (rt ?w), props = props ?a\<rparr>,
                          lastFetched = clock ?w (ticks ?w)\<rparr>]"
    and c3: "filter (\<lambda>e. entryUid useTestStore e = Num 2)
        (allItems (updateStoreItem useTestStore ?b (updateStoreItem useTestStore ?a ?w))) =
        [\<lparr>item = \<lparr>addr = Suc (nextAddr (rt ?w)), props = props ?b\<rparr>,
          lastFetched = clock ?w (Suc (ticks ?w))\<rparr>]"
    by simp_all
  have r1: "map (props \<circ> item) (allItems (updateStoreItem useTestStore ?n ?w)) =
     [\<lparr>org_name = ''Org 1'', org_id = 1\<rparr>, \<lparr>org_name = ''Org 2'', org_id = 2\<rparr>,
      \<lparr>org_name = ''Org 3'', org_id = 3\<rparr>, \<lparr>org_name = ''Org 4'', org_id = 4\<rparr>,
      \<lparr>org_name = ''Org 7'', org_id = 7\<rparr>]"
    unfolding c1 items by simp
  have r2: "map (props \<circ> item) (allItems (updateStoreItem useTestStore ?a ?w)) =
     [\<lparr>org_name = ''Org 1'', org_id = 1\<rparr>, \<lparr>org_name = ''First'', org_id = 2\<rparr>,
      \<lparr>org_name = ''Org 3'', org_id = 3\<rparr>, \<lparr>org_name = ''Org 4'', org_id = 4\<rparr>]"
    unfolding c2 items by simp
  have r3: "filter (\<lambda>e. entryUid useTestStore e = Num 2)
        (allItems (updateStoreItem useTestStore ?b (updateStoreItem useTestStore ?a ?w))) =
     [\<lparr>item = \<lparr>addr = 5, props = \<lparr>org_name = ''Second'', org_id = 2\<rparr>\<rparr>, lastFetched = 106\<rparr>]"
    unfolding c3 env by simp
  have h2': "entryUid useTestStore (allItems ?w ! 1) = Num 2"
    "entryUid useTestStore (allItems ?w ! 0) \<noteq> Num 2"
    unfolding items by (simp_all add: entryUid_def useTestStore_def)
  from h1 have h1': "Num 7 \<notin> set (map (entryUid useTestStore) (allItems ?w))" by auto
  from h1' r1 h2' r2 h3 r3 show ?thesis by blast
qed

text \<open>
  C3 as it is stated, without a condition on the cache, fails. \<open>api.orgs.create\<close> puts
  a second record 1 into the database of the example, \<open>getAllItems\<close> then takes both
  records 1 into the cache, and each of two upserts of a record 1 replaces the first of
  them: two entries of record 1 remain.
\<close>

theorem upsert_twice_counterexample:
  "getUid useTestStore (props \<lparr>addr = 1001, props = \<lparr>org_name = ''First'', org_id = 1\<rparr>\<rparr>) =
     getUid useTestStore (props \<lparr>addr = 1002, props = \<lparr>org_name = ''Second'', org_id = 1\<rparr>\<rparr>) \<and>
   map (props \<circ> item)
     (allItems
        (updateStoreItem useTestStore \<lparr>addr = 1002, props = \<lparr>org_name = ''Second'', org_id = 1\<rparr>\<rparr>
           (updateStoreItem useTestStore \<lparr>addr = 1001, props = \<lparr>org_name = ''First'', org_id = 1\<rparr>\<rparr>
              (performAll useTestStore
                 [CreateItem \<lparr>addr = 1000, props = \<lparr>org_name = ''Dup'', org_id = 1\<rparr>\<rparr>, GetAllItems]
                 testStore)))) =
     [\<lparr>org_name = ''Second'', org_id = 1\<rparr>, \<lparr>org_name = ''Org 2'', org_id = 2\<rparr>,
      \<lparr>org_name = ''Org 3'', org_id = 3\<rparr>, \<lparr>org_name = ''Org 4'', org_id = 4\<rparr>,
      \<lparr>org_name = ''Dup'', org_id = 1\<rparr>]"
  by (simp add: run_defs)

section \<open>Failures of the Backend\<close>

text \<open>
  C4. Each of the four operations awaits the Backend inside a \<^verbatim>\<open>try\<close> whose \<^verbatim>\<open>catch\<close> prints
  the error and returns nothing, so an operation has no way to end but with a result,
  which is \<open>None\<close> for \<^verbatim>\<open>undefined\<close>. Whenever the call of the Backend is rejected, and
  for \<open>getSingleItem\<close> also when it resolves with no record, the operation results in
  \<open>None\<close>, \<open>allItems\<close> and \<open>lastFetchedAllItems\<close> are as before, and the error is on the
  console. (\<open>getAllItems\<close> and \<open>getSingleItem\<close> call the Backend when the cache has
  no answer that is young enough; that is the first half of their hypotheses.)
\<close>

theorem failure_contained:
  "((case lastFetchedAllItems w of None \<Rightarrow> True
     | Some t \<Rightarrow> clock w (ticks w) - t > allItemsCacheMs opts) \<and>
    fst (opts_getAllItems opts (rt w)) = Rejected e \<longrightarrow>
      fst (getAllItems opts w) = None \<and>
      allItems (snd (getAllItems opts w)) = allItems w \<and>
      lastFetchedAllItems (snd (getAllItems opts w)) = lastFetchedAllItems w \<and>
      console (snd (getAllItems opts w)) = console w @ [e]) \<and>
   ((case find (\<lambda>e. getUid opts (props (item e)) = id') (allItems w) of None \<Rightarrow> True
     | Some existingItem \<Rightarrow> clock w (ticks w) - lastFetched existingItem > singleItemCacheMs opts) \<and>
    fst (opts_getItem opts id' (rt w)) = Rejected e \<longrightarrow>
      fst (getSingleItem opts id' w) = None \<and>
      allItems (snd (getSingleItem opts id' w)) = allItems w \<and>
      lastFetchedAllItems (snd (getSingleItem opts id' w)) = lastFetchedAllItems w \<and>
      console (snd (getSingleItem opts id' w)) = console w @ [e]) \<and>
   ((case find (\<lambda>e. getUid opts (props (item e)) = id') (allItems w) of None \<Rightarrow> True
     | Some existingItem \<Rightarrow> clock w (ticks w) - lastFetched existingItem > singleItemCacheMs opts) \<and>
    fst (opts_getItem opts id' (rt w)) = Resolved None \<longrightarrow>
      fst (getSingleItem opts id' w) = None \<and>
      allItems (snd (getSingleItem opts id' w)) = allItems w \<and>
      lastFetchedAllItems (snd (getSingleItem opts id' w)) = lastFetchedAllItems w \<and>
      console (snd (getSingleItem opts id' w)) = console w @ [Error ''Item not found'']) \<and>
   (fst (opts_updateItem opts id' x (rt w)) = Rejected e \<longrightarrow>
      fst (updateItem opts id' x w) = None \<and>
      allItems (snd (updateItem opts id' x w)) = allItems w \<and>
      lastFetchedAllItems (snd (updateItem opts id' x w)) = lastFetchedAllItems w \<and>
      console (snd (updateItem opts id' x w)) = console w @ [e]) \<and>
   (fst (opts_createItem opts x (rt w)) = Rejected e \<longrightarrow>
      fst (createItem opts x w) = None \<and>
      allItems (snd (createItem opts x w)) = allItems w \<and>
      lastFetchedAllItems (snd (createItem opts x w)) = lastFetchedAllItems w \<and>
      console (snd (createItem opts x w)) = console w @ [e])"
proof -
  have all: "fst (getAllItems opts w) = None \<and>
      allItems (snd (getAllItems opts w)) = allItems w \<and>
      lastFetchedAllItems (snd (getAllItems opts w)) = lastFetchedAllItems w \<and>
      console (snd (getAllItems opts w)) = console w @ [e]"
    if "case lastFetchedAllItems w of None \<Rightarrow> True
        | Some t \<Rightarrow> clock w (ticks w) - t > allItemsCacheMs opts"
      and "fst (opts_getAllItems opts (rt w)) = Rejected e"
    using that
    by (cases "lastFetchedAllItems w")
       (simp_all add: getAllItems_def cacheHasExpired_def newDate_def Let_def split_def)
  have one: "fst (getSingleItem opts id' w) = None \<and>
      allItems (snd (getSingleItem opts id' w)) = allItems w \<and>
      lastFetchedAllItems (snd (getSingleItem opts id' w)) = lastFetchedAllItems w \<and>
      console (snd (getSingleItem opts id' w)) = console w @ [e]"
    if "case find (\<lambda>e. getUid opts (props (item e)) = id') (allItems w) of None \<Rightarrow> True
        | Some existingItem \<Rightarrow>
            clock w (ticks w) - lastFetched existingItem > singleItemCacheMs opts"
      and "fst (opts_getItem opts id' (rt w)) = Rejected e"
    using that
    by (cases "find (\<lambda>e. getUid opts (props (item e)) = id') (allItems w)")
       (simp_all add: getSingleItem_def getSingleItem_fetch_def cacheHasExpired_def newDate_def
          Let_def split_def)
  have none: "fst (getSingleItem opts id' w) = None \<and>
      allItems (snd (getSingleItem opts id' w)) = allItems w \<and>
      lastFetchedAllItems (snd (getSingleItem opts id' w)) = lastFetchedAllItems w \<and>
      console (snd (getSingleItem opts id' w)) = console w @ [Error ''Item not found'']"
    if "case find (\<lambda>e. getUid opts (props (item e)) = id') (allItems w) of None \<Rightarrow> True
        | Some existingItem \<Rightarrow>
            clock w (ticks w) - lastFetched existingItem > singleItemCacheMs opts"
      and "fst (opts_getItem opts id' (rt w)) = Resolved None"
    using that
    by (cases "find (\<lambda>e. getUid opts (props (item e)) = id') (allItems w)")
       (simp_all add: getSingleItem_def getSingleItem_fetch_def cacheHasExpired_def newDate_def
          Let_def split_def)
  have upd: "fst (updateItem opts id' x w) = None \<and>
      allItems (snd (updateItem opts id' x w)) = allItems w \<and>
      lastFetchedAllItems (snd (updateItem opts id' x w)) = lastFetchedAllItems w \<and>
      console (snd (updateItem opts id' x w)) = console w @ [e]"
    if "fst (opts_updateItem opts id' x (rt w)) = Rejected e"
    using that by (simp add: updateItem_def Let_def split_def)
  have cre: "fst (createItem opts x w) = None \<and>
      allItems (snd (createItem opts x w)) = allItems w \<and>
      lastFetchedAllItems (snd (createItem opts x w)) = lastFetchedAllItems w \<and>
      console (snd (createItem opts x w)) = console w @ [e]"
    if "fst (opts_createItem opts x (rt w)) = Rejected e"
    using that by (simp add: createItem_def Let_def split_def)
  from all one none upd cre show ?thesis by blast
qed

text \<open>An unreachable Backend fails all four operations on the new store of the example;
  the fake API resolves the fetch of record 9, which it does not have, with no record.\<close>

theorem failure_contained_witness:
  "fst (opts_getAllItems offline (rt testStore)) = Rejected (Error ''offline'') \<and>
   fst (opts_getItem offline (Num 2) (rt testStore)) = Rejected (Error ''offline'') \<and>
   fst (opts_getItem useTestStore (Num 9) (rt testStore)) = Resolved None \<and>
   fst (opts_updateItem offline (Num 2) \<lparr>addr = 1000, props = \<lparr>org_name = ''New'', org_id = 2\<rparr>\<rparr>
          (rt testStore)) = Rejected (Error ''offline'') \<and>
   fst (opts_createItem offline \<lparr>addr = 1000, props = \<lparr>org_name = ''New'', org_id = 2\<rparr>\<rparr>
          (rt testStore)) = Rejected (Error ''offline'') \<and>
   fst (getAllItems offline testStore) = None \<and>
   allItems (snd (getAllItems offline testStore)) = [] \<and>
   lastFetchedAllItems (snd (getAllItems offline testStore)) = None \<and>
   fst (getSingleItem offline (Num 2) testStore) = None \<and>
   allItems (snd (getSingleItem offline (Num 2) testStore)) = [] \<and>
   fst (getSingleItem useTestStore (Num 9) testStore) = None \<and>
   allItems (snd (getSingleItem useTestStore (Num 9) testStore)) = [] \<and>
   console (snd (getSingleItem useTestStore (Num 9) testStore)) = [Error ''Item not found''] \<and>
   fst (updateItem offline (Num 2) \<lparr>addr = 1000, props = \<lparr>org_name = ''New'', org_id = 2\<rparr>\<rparr>
          testStore) = None \<and>
   allItems (snd (updateItem offline (Num 2)
      \<lparr>addr = 1000, props = \<lparr>org_name = ''New'', org_id = 2\<rparr>\<rparr> testStore)) = [] \<and>
   fst (createItem offline \<lparr>addr = 1000, props = \<lparr>org_name = ''New'', org_id = 2\<rparr>\<rparr> testStore) =
     None \<and>
   allItems (snd (createItem offline \<lparr>addr = 1000, props = \<lparr>org_name = ''New'', org_id = 2\<rparr>\<rparr>
      testStore)) = []"
proof -
  let ?x = "\<lparr>addr = 1000, props = \<lparr>org_name = ''New'', org_id = 2\<rparr>\<rparr>"
  have ttl: "case lastFetchedAllItems testStore of None \<Rightarrow> True
      | Some t \<Rightarrow> clock testStore (ticks testStore) - t > allItemsCacheMs offline"
    by (simp add: run_defs)
  have miss: "case find (\<lambda>e. getUid offline (props (item e)) = Num 2) (allItems testStore) of
        None \<Rightarrow> True
      | Some existingItem \<Rightarrow>
          clock testStore (ticks testStore) - lastFetched existingItem > singleItemCacheMs offline"
    by (simp add: run_defs)
  have miss9: "case find (\<lambda>e. getUid useTestStore (props (item e)) = Num 9) (allItems testStore) of
        None \<Rightarrow> True
      | Some existingItem \<Rightarrow>
          clock testStore (ticks testStore) - lastFetched existingItem
            > singleItemCacheMs useTestStore"
    by (simp add: run_defs)
  have r1: "fst (opts_getAllItems offline (rt testStore)) = Rejected (Error ''offline'')"
    by (simp add: offline_def)
  have r2: "fst (opts_getItem offline (Num 2) (rt testStore)) = Rejected (Error ''offline'')"
    by (simp add: offline_def)
  have r3: "fst (opts_getItem useTestStore (Num 9) (rt testStore)) = Resolved None"
    by (simp add: run_defs)
  have r4: "fst (opts_updateItem offline (Num 2) ?x (rt testStore)) = Rejected (Error ''offline'')"
    by (simp add: offline_def)
  have r5: "fst (opts_createItem offline ?x (rt testStore)) = Rejected (Error ''offline'')"
    by (simp add: offline_def)
  have e: "allItems testStore = []" "lastFetchedAllItems testStore = None" "console testStore = []"
    by (simp_all add: run_defs)
  from failure_contained [where w = testStore and opts = offline and e = "Error ''offline''"
      and id' = "Num 2" and x = ?x]
    ttl miss r1 r2 r4 r5
  have a: "fst (getAllItems offline testStore) = None"
    "allItems (snd (getAllItems offline testStore)) = allItems testStore"
    "lastFetchedAllItems (snd (getAllItems offline testStore)) = lastFetchedAllItems testStore"
    "fst (getSingleItem offline (Num 2) testStore) = None"
    "allItems (snd (getSingleItem offline (Num 2) testStore)) = allItems testStore"
    "fst (updateItem offline (Num 2) ?x testStore) = None"
    "allItems (snd (updateItem offline (Num 2) ?x testStore)) = allItems testStore"
    "fst (createItem offline ?x testStore) = None"
    "allItems (snd (createItem offline ?x testStore)) = allItems testStore"
    by simp_all
  from failure_contained [where w = testStore and opts = useTestStore and e = "Error ''offline''"
      and id' = "Num 9" and x = ?x] miss9 r3
  have b: "fst (getSingleItem useTestStore (Num 9) testStore) = None"
    "allItems (snd (getSingleItem useTestStore (Num 9) testStore)) = allItems testStore"
    "console (snd (getSingleItem useTestStore (Num 9) testStore)) =
       console testStore @ [Error ''Item not found'']"
    by simp_all
  from a b e r1 r2 r3 r4 r5 show ?thesis by simp
qed

section \<open>One entry for each identifier\<close>

text \<open>
  C5, amended. A caller performs any operations of the store, one after the other, on a
  new store. If every fetch-all of the Backend that is made among them and resolves,
  resolves with records of pairwise different identifiers, then at the end no two entries
  of the cache have the same identifier. (A fetch-all is made by a \<open>GetAllItems\<close> that
  finds \<open>lastFetchedAllItems\<close> not set or older than \<open>allItemsCacheMs\<close>; the hypothesis
  says nothing of the Backend at any other operation.) And a write of one record whose
  identifier is that of an entry replaces and never duplicates: after \<open>updateStoreItem\<close>
  the entries have the identifiers of before, in the positions of before.
\<close>

theorem one_entry_per_identifier:
  assumes "\<forall>k < length ops.
      ops ! k = GetAllItems \<and>
      (case lastFetchedAllItems (performAll opts (take k ops) (defineCacheStore clk r)) of
         None \<Rightarrow> True
       | Some t \<Rightarrow>
           clock (performAll opts (take k ops) (defineCacheStore clk r))
             (ticks (performAll opts (take k ops) (defineCacheStore clk r))) - t
             > allItemsCacheMs opts) \<longrightarrow>
      (\<forall>items. fst (opts_getAllItems opts
                  (rt (performAll opts (take k ops) (defineCacheStore clk r)))) = Resolved items
         \<longrightarrow> distinct (map (\<lambda>x. getUid opts (props x)) items))"
  shows "distinct (map (entryUid opts) (allItems (performAll opts ops (defineCacheStore clk r)))) \<and>
         (getUid opts (props x) \<in> set (map (entryUid opts) (allItems w)) \<longrightarrow>
            map (entryUid opts) (allItems (updateStoreItem opts x w)) =
              map (entryUid opts) (allItems w))"
proof -
  have "distinct (map (entryUid opts) (allItems (defineCacheStore clk r)))"
    by (simp add: defineCacheStore_def)
  from performAll_distinct [OF this assms]
  have "distinct (map (entryUid opts) (allItems (performAll opts ops (defineCacheStore clk r))))" .
  moreover have "getUid opts (props x) \<in> set (map (entryUid opts) (allItems w)) \<longrightarrow>
      map (entryUid opts) (allItems (updateStoreItem opts x w)) = map (entryUid opts) (allItems w)"
    by (simp add: updateStoreItem_uids)
  ultimately show ?thesis by blast
qed

text \<open>The store of the example: all records are fetched, a second record 1 is created,
  which replaces the entry of record 1, and all records are asked for again. The clock
  shows 106 then and the collection was stamped 104, so no fetch is made, though the
  database holds two records 1 by now; the four entries have different identifiers.\<close>

theorem one_entry_per_identifier_witness:
  "fst (opts_getAllItems useTestStore
          (rt (defineCacheStore millisecondClock db :: (Org, Org obj list) world))) =
     Resolved (backend db) \<and>
   map (\<lambda>x. getUid useTestStore (props x)) (backend db) = [Num 1, Num 2, Num 3, Num 4] \<and>
   lastFetchedAllItems
     (performAll useTestStore
        [GetAllItems, CreateItem \<lparr>addr = 1000, props = \<lparr>org_name = ''Dup'', org_id = 1\<rparr>\<rparr>]
        (defineCacheStore millisecondClock db)) = Some 104 \<and>
   clock
     (performAll useTestStore
        [GetAllItems, CreateItem \<lparr>addr = 1000, props = \<lparr>org_name = ''Dup'', org_id = 1\<rparr>\<rparr>]
        (defineCacheStore millisecondClock db))
     (ticks
        (performAll useTestStore
           [GetAllItems, CreateItem \<lparr>addr = 1000, props = \<lparr>org_name = ''Dup'', org_id = 1\<rparr>\<rparr>]
           (defineCacheStore millisecondClock db))) = 106 \<and>
   map (org_id \<circ> props)
     (backend (rt
        (performAll useTestStore
           [GetAllItems, CreateItem \<lparr>addr = 1000, props = \<lparr>org_name = ''Dup'', org_id = 1\<rparr>\<rparr>]
           (defineCacheStore millisecondClock db)))) = [1, 2, 3, 4, 1] \<and>
   map (entryUid useTestStore)
     (allItems (performAll useTestStore
        [GetAllItems, CreateItem \<lparr>addr = 1000, props = \<lparr>org_name = ''Dup'', org_id = 1\<rparr>\<rparr>,
         GetAllItems]
        (defineCacheStore millisecondClock db))) =
     [Num 1, Num 2, Num 3, Num 4] \<and>
   distinct (map (entryUid useTestStore)
     (allItems (performAll useTestStore
        [GetAllItems, CreateItem \<lparr>addr = 1000, props = \<lparr>org_name = ''Dup'', org_id = 1\<rparr>\<rparr>,
         GetAllItems]
        (defineCacheStore millisecondClock db)))) \<and>
   getUid useTestStore (props \<lparr>addr = 1000, props = \<lparr>org_name = ''Dup'', org_id = 1\<rparr>\<rparr>)
     \<in> set (map (entryUid useTestStore)
         (allItems (performAll useTestStore [GetAllItems] (defineCacheStore millisecondClock db)))) \<and>
   map (entryUid useTestStore)
     (allItems (updateStoreItem useTestStore
        \<lparr>addr = 1000, props = \<lparr>org_name = ''Dup'', org_id = 1\<rparr>\<rparr>
        (performAll useTestStore [GetAllItems] (defineCacheStore millisecondClock db)))) =
     [Num 1, Num 2, Num 3, Num 4]"
proof -
  let ?dup = "\<lparr>addr = 1000, props = \<lparr>org_name = ''Dup'', org_id = 1\<rparr>\<rparr>"
  let ?ops = "[GetAllItems, CreateItem ?dup, GetAllItems]"
  let ?w0 = "defineCacheStore millisecondClock db :: (Org, Org obj list) world"
  let ?w1 = "performAll useTestStore [GetAllItems] ?w0"
  let ?w2 = "performAll useTestStore [GetAllItems, CreateItem ?dup] ?w0"
  have r0: "fst (opts_getAllItems useTestStore (rt ?w0)) = Resolved (backend db)"
    by (simp add: run_defs)
  have d0: "map (\<lambda>x. getUid useTestStore (props x)) (backend db) = [Num 1, Num 2, Num 3, Num 4]"
    by (simp add: run_defs)
  have l2: "lastFetchedAllItems ?w2 = Some 104" by (simp add: run_defs)
  have c2: "clock ?w2 (ticks ?w2) = 106" by (simp add: run_defs)
  have m2: "allItemsCacheMs useTestStore = 60000" by (simp add: useTestStore_def)
  have b2: "map (org_id \<circ> props) (backend (rt ?w2)) = [1, 2, 3, 4, 1]" by (simp add: run_defs)
  have h: "\<forall>k < length ?ops.
      ?ops ! k = GetAllItems \<and>
      (case lastFetchedAllItems (performAll useTestStore (take k ?ops) ?w0) of
         None \<Rightarrow> True
       | Some t \<Rightarrow>
           clock (performAll useTestStore (take k ?ops) ?w0)
             (ticks (performAll useTestStore (take k ?ops) ?w0)) - t
             > allItemsCacheMs useTestStore) \<longrightarrow>
      (\<forall>items. fst (opts_getAllItems useTestStore
                  (rt (performAll useTestStore (take k ?ops) ?w0))) = Resolved items
         \<longrightarrow> distinct (map (\<lambda>x. getUid useTestStore (props x)) items))"
  proof (intro allI impI)
    fix k items
    assume k: "k < length ?ops"
      and g: "?ops ! k = GetAllItems \<and>
        (case lastFetchedAllItems (performAll useTestStore (take k ?ops) ?w0) of
           None \<Rightarrow> True
         | Some t \<Rightarrow>
             clock (performAll useTestStore (take k ?ops) ?w0)
               (ticks (performAll useTestStore (take k ?ops) ?w0)) - t
               > allItemsCacheMs useTestStore)"
      and a: "fst (opts_getAllItems useTestStore
                  (rt (performAll useTestStore (take k ?ops) ?w0))) = Resolved items"
    from k have "k = 0 \<or> k = 1 \<or> k = 2" by auto
    then show "distinct (map (\<lambda>x. getUid useTestStore (props x)) items)"
    proof (elim disjE)
      assume k0: "k = 0"
      have "performAll useTestStore (take 0 ?ops) ?w0 = ?w0" by simp
      with a k0 r0 have "items = backend db" by (simp only: outcome.inject)
      with d0 show ?thesis by simp
    next
      assume "k = 1"
      with g show ?thesis by simp
    next
      assume k2: "k = 2"
      have t2: "performAll useTestStore (take 2 ?ops) ?w0 = ?w2" by (simp add: numeral_2_eq_2)
      from g k2 have "case lastFetchedAllItems ?w2 of None \<Rightarrow> True
         | Some t \<Rightarrow> clock ?w2 (ticks ?w2) - t > allItemsCacheMs useTestStore"
        by (simp only: t2)
      with l2 c2 m2 show ?thesis by simp
    qed
  qed
  have u: "map (entryUid useTestStore) (allItems (performAll useTestStore ?ops ?w0)) =
      [Num 1, Num 2, Num 3, Num 4]"
    by (simp add: run_defs)
  have u1: "map (entryUid useTestStore) (allItems ?w1) = [Num 1, Num 2, Num 3, Num 4]"
    by (simp add: run_defs)
  have gd: "getUid useTestStore (props ?dup) = Num 1" by (simp add: useTestStore_def)
  from u1 gd have mem: "getUid useTestStore (props ?dup) \<in> set (map (entryUid useTestStore)
      (allItems ?w1))"
    by simp
  from one_entry_per_identifier [OF h, where x = ?dup and w = ?w1] mem
  have d: "distinct (map (entryUid useTestStore) (allItems (performAll useTestStore ?ops ?w0)))"
    and same: "map (entryUid useTestStore) (allItems (updateStoreItem useTestStore ?dup ?w1)) =
      map (entryUid useTestStore) (allItems ?w1)"
    by blast+
  from same u1 have same': "map (entryUid useTestStore)
      (allItems (updateStoreItem useTestStore ?dup ?w1)) = [Num 1, Num 2, Num 3, Num 4]"
    by simp
  from r0 d0 l2 c2 b2 u d mem same' show ?thesis by blast
qed

text \<open>
  C5 as it is stated, for every Backend, fails: \<open>getAllItems\<close> wraps the records it is
  given one by one and compares no identifiers. \<open>api.orgs.create\<close> appends to the
  database of the example without a look at the identifiers in it, so after the creation
  of a second record 1 the database holds two, and after \<open>getAllItems\<close> so does the
  cache.
\<close>

theorem duplicate_identifier_counterexample:
  "map (entryUid useTestStore)
     (allItems (performAll useTestStore
        [CreateItem \<lparr>addr = 1000, props = \<lparr>org_name = ''Dup'', org_id = 1\<rparr>\<rparr>, GetAllItems]
        (defineCacheStore millisecondClock db))) =
     [Num 1, Num 2, Num 3, Num 4, Num 1]"
  by (simp add: run_defs)

section \<open>A single record from the cache\<close>




section \<open>Updating a record\<close>

text \<open>
  C7. When the update of the Backend resolves with \<open>updatedItem\<close>, \<open>updateItem\<close> returns
  that record and puts a copy of it into the cache, stamped with the clock's reading.
  The entry it replaces is the first whose identifier is \<open>getUid\<close> of \<open>updatedItem\<close>,
  and the copy goes to the end when there is none; the \<open>id'\<close> that was passed in only
  reaches the Backend. Every entry of another identifier, the one of \<open>id'\<close> among them
  when the two identifiers differ, stays as it is.
\<close>

theorem updateItem_upserts_returned_record:
  assumes "fst (opts_updateItem opts id' x (rt w)) = Resolved updatedItem"
  shows "fst (updateItem opts id' x w) = Some updatedItem \<and>
         calls (snd (updateItem opts id' x w)) = calls w @ [CallUpdateItem id' x] \<and>
         ((\<forall>e \<in> set (allItems w). entryUid opts e \<noteq> getUid opts (props updatedItem)) \<longrightarrow>
            allItems (snd (updateItem opts id' x w)) =
              allItems w @
                [\<lparr>item = \<lparr>addr = nextAddr (snd (opts_updateItem opts id' x (rt w))),
                          props = props updatedItem\<rparr>,
                  lastFetched = clock w (ticks w)\<rparr>]) \<and>
         (\<forall>i < length (allItems w).
            entryUid opts (allItems w ! i) = getUid opts (props updatedItem) \<and>
            (\<forall>j < i. entryUid opts (allItems w ! j) \<noteq> getUid opts (props updatedItem)) \<longrightarrow>
            allItems (snd (updateItem opts id' x w)) =
              (allItems w)
                [i := \<lparr>item = \<lparr>addr = nextAddr (snd (opts_updateItem opts id' x (rt w))),
                               props = props updatedItem\<rparr>,
                       lastFetched = clock w (ticks w)\<rparr>]) \<and>
         (\<forall>i < length (allItems w).
            entryUid opts (allItems w ! i) \<noteq> getUid opts (props updatedItem) \<longrightarrow>
            allItems (snd (updateItem opts id' x w)) ! i = allItems w ! i)"
proof -
  let ?w2 = "w\<lparr>calls := calls w @ [CallUpdateItem id' x],
                rt := snd (opts_updateItem opts id' x (rt w))\<rparr>"
  have u: "updateItem opts id' x w = (Some updatedItem, updateStoreItem opts updatedItem ?w2)"
    using assms by (rule updateItem_resolved)
  have res: "fst (updateItem opts id' x w) = Some updatedItem"
    by (simp add: u)
  have log: "calls (snd (updateItem opts id' x w)) = calls w @ [CallUpdateItem id' x]"
    by (simp add: u updateStoreItem_frame)
  have app: "allItems (snd (updateItem opts id' x w)) =
      allItems w @
        [\<lparr>item = \<lparr>addr = nextAddr (snd (opts_updateItem opts id' x (rt w))),
                  props = props updatedItem\<rparr>,
          lastFetched = clock w (ticks w)\<rparr>]"
    if "\<forall>e \<in> set (allItems w). entryUid opts e \<noteq> getUid opts (props updatedItem)"
    using updateStoreItem_append [of ?w2 opts updatedItem] that by (simp add: u)
  have rep: "allItems (snd (updateItem opts id' x w)) =
      (allItems w)
        [i := \<lparr>item = \<lparr>addr = nextAddr (snd (opts_updateItem opts id' x (rt w))),
                       props = props updatedItem\<rparr>,
               lastFetched = clock w (ticks w)\<rparr>]"
    if "i < length (allItems w)"
      and "entryUid opts (allItems w ! i) = getUid opts (props updatedItem)"
      and "\<forall>j < i. entryUid opts (allItems w ! j) \<noteq> getUid opts (props updatedItem)" for i
    using updateStoreItem_replace [of i ?w2 opts updatedItem] that by (simp add: u)
  have oth: "allItems (snd (updateItem opts id' x w)) ! i = allItems w ! i"
    if "i < length (allItems w)"
      and "entryUid opts (allItems w ! i) \<noteq> getUid opts (props updatedItem)" for i
    using updateStoreItem_others [of i ?w2 opts updatedItem] that by (simp add: u)
  from res log app rep oth show ?thesis by blast
qed

text \<open>The store of the example after \<open>getAllItems\<close>: an update of record 1 with the
  properties of a record 2 makes the fake API return a record 2, and it is the entry of
  record 2, at index 1, that is replaced. On the new store the same update puts the
  record 2 at the end of the empty cache.\<close>

theorem updateItem_upserts_returned_record_witness:
  "fst (opts_updateItem useTestStore (Num 1)
          \<lparr>addr = 1000, props = \<lparr>org_name = ''Renamed'', org_id = 2\<rparr>\<rparr>
          (rt (performAll useTestStore [GetAllItems] testStore))) =
     Resolved \<lparr>addr = 5, props = \<lparr>org_name = ''Renamed'', org_id = 2\<rparr>\<rparr> \<and>
   map (entryUid useTestStore) (allItems (performAll useTestStore [GetAllItems] testStore)) =
     [Num 1, Num 2, Num 3, Num 4] \<and>
   fst (updateItem useTestStore (Num 1)
          \<lparr>addr = 1000, props = \<lparr>org_name = ''Renamed'', org_id = 2\<rparr>\<rparr>
          (performAll useTestStore [GetAllItems] testStore)) =
     Some \<lparr>addr = 5, props = \<lparr>org_name = ''Renamed'', org_id = 2\<rparr>\<rparr> \<and>
   allItems (snd (updateItem useTestStore (Num 1)
          \<lparr>addr = 1000, props = \<lparr>org_name = ''Renamed'', org_id = 2\<rparr>\<rparr>
          (performAll useTestStore [GetAllItems] testStore))) =
     (allItems (performAll useTestStore [GetAllItems] testStore))
       [1 := \<lparr>item = \<lparr>addr = 6, props = \<lparr>org_name = ''Renamed'', org_id = 2\<rparr>\<rparr>,
              lastFetched = 105\<rparr>] \<and>
   allItems testStore = [] \<and>
   allItems (snd (updateItem useTestStore (Num 1)
          \<lparr>addr = 1000, props = \<lparr>org_name = ''Renamed'', org_id = 2\<rparr>\<rparr> testStore)) =
     [\<lparr>item = \<lparr>addr = 6, props = \<lparr>org_name = ''Renamed'', org_id = 2\<rparr>\<rparr>, lastFetched = 100\<rparr>]"
proof -
  let ?w = "performAll useTestStore [GetAllItems] testStore"
  let ?x = "\<lparr>addr = 1000, props = \<lparr>org_name = ''Renamed'', org_id = 2\<rparr>\<rparr>"
  let ?u = "\<lparr>addr = 5, props = \<lparr>org_name = ''Renamed'', org_id = 2\<rparr>\<rparr>"
  have h: "fst (opts_updateItem useTestStore (Num 1) ?x (rt ?w)) = Resolved ?u"
    by (simp add: run_defs)
  have uids: "map (entryUid useTestStore) (allItems ?w) = [Num 1, Num 2, Num 3, Num 4]"
    by (simp add: run_defs)
  have len: "length (allItems ?w) = 4" by (simp add: run_defs)
  have nxt: "nextAddr (snd (opts_updateItem useTestStore (Num 1) ?x (rt ?w))) = 6"
    by (simp add: run_defs)
  have now: "clock ?w (ticks ?w) = 105" by (simp add: run_defs)
  have first: "entryUid useTestStore (allItems ?w ! 1) = getUid useTestStore (props ?u) \<and>
      (\<forall>j < 1. entryUid useTestStore (allItems ?w ! j) \<noteq> getUid useTestStore (props ?u))"
    by (simp add: run_defs)
  from updateItem_upserts_returned_record [OF h]
  have res: "fst (updateItem useTestStore (Num 1) ?x ?w) = Some ?u"
    and rep: "\<forall>i < length (allItems ?w).
      entryUid useTestStore (allItems ?w ! i) = getUid useTestStore (props ?u) \<and>
      (\<forall>j < i. entryUid useTestStore (allItems ?w ! j) \<noteq> getUid useTestStore (props ?u)) \<longrightarrow>
      allItems (snd (updateItem useTestStore (Num 1) ?x ?w)) =
        (allItems ?w)
          [i := \<lparr>item = \<lparr>addr = nextAddr (snd (opts_updateItem useTestStore (Num 1) ?x (rt ?w))),
                         props = props ?u\<rparr>,
                 lastFetched = clock ?w (ticks ?w)\<rparr>]"
    by blast+
  from rep len first have "allItems (snd (updateItem useTestStore (Num 1) ?x ?w)) =
      (allItems ?w)
        [1 := \<lparr>item = \<lparr>addr = nextAddr (snd (opts_updateItem useTestStore (Num 1) ?x (rt ?w))),
                       props = props ?u\<rparr>,
               lastFetched = clock ?w (ticks ?w)\<rparr>]"
    by (metis one_less_numeral_iff semiring_norm(76))
  with nxt now have upd: "allItems (snd (updateItem useTestStore (Num 1) ?x ?w)) =
      (allItems ?w)[1 := \<lparr>item = \<lparr>addr = 6, props = props ?u\<rparr>, lastFetched = 105\<rparr>]"
    by simp
  have h0: "fst (opts_updateItem useTestStore (Num 1) ?x (rt testStore)) = Resolved ?u"
    by (simp add: run_defs)
  have e0: "allItems testStore = []" by (simp add: run_defs)
  then have none: "\<forall>e \<in> set (allItems testStore).
      entryUid useTestStore e \<noteq> getUid useTestStore (props ?u)"
    by simp
  have env0: "nextAddr (snd (opts_updateItem useTestStore (Num 1) ?x (rt testStore))) = 6"
    "clock testStore (ticks testStore) = 100"
    by (simp_all add: run_defs)
  from updateItem_upserts_returned_record [OF h0] none
  have "allItems (snd (updateItem useTestStore (Num 1) ?x testStore)) =
      allItems testStore @
        [\<lparr>item = \<lparr>addr = nextAddr (snd (opts_updateItem useTestStore (Num 1) ?x (rt testStore))),
                  props = props ?u\<rparr>,
          lastFetched = clock testStore (ticks testStore)\<rparr>]"
    by blast
  with e0 env0 have app: "allItems (snd (updateItem useTestStore (Num 1) ?x testStore)) =
      [\<lparr>item = \<lparr>addr = 6, props = \<lparr>org_name = ''Renamed'', org_id = 2\<rparr>\<rparr>, lastFetched = 100\<rparr>]"
    by simp
  from h uids res upd e0 app show ?thesis by simp
qed

section \<open>What the operations on one record leave alone\<close>




section \<open>Saving through the helpers\<close>

text \<open>
  C9, amended. \<open>saveItem\<close> does nothing when no value is bound. When a value \<open>v\<close> is
  bound, \<open>saveItem\<close> sets \<open>saving\<close> and awaits \<open>updateItem\<close> of \<open>getUid\<close> of \<open>v\<close> and
  \<open>v\<close>: while the update is awaited the helpers are those of before with \<open>saving\<close>
  true. When \<open>saveItem\<close> has ended, \<open>saving\<close> is false, whatever became of the update:
  \<open>updateItem\<close> catches the failure of the Backend itself and resolves with nothing, so
  the assignment that follows the \<^verbatim>\<open>await\<close> is always reached. The helpers are then those
  of before with \<open>saving\<close> false, and the world is as \<open>updateItem\<close> leaves it.
\<close>

theorem saveItem_resets_saving:
  "(item_value h = None \<longrightarrow>
      saveItem_begin opts h = None \<and> saveItem opts (h, w) = (h, w)) \<and>
   (item_value h = Some v \<longrightarrow>
      saveItem_begin opts h = Some (h\<lparr>saving := True\<rparr>, getUid opts (props v), v) \<and>
      saving (fst (the (saveItem_begin opts h))) = True \<and>
      saving (fst (saveItem opts (h, w))) = False \<and>
      fst (saveItem opts (h, w)) = h\<lparr>saving := False\<rparr> \<and>
      snd (saveItem opts (h, w)) = snd (updateItem opts (getUid opts (props v)) v w))"
proof (intro conjI impI)
  assume "item_value h = None"
  then show "saveItem_begin opts h = None" by (simp add: saveItem_begin_def)
  then show "saveItem opts (h, w) = (h, w)" by (simp add: saveItem_def)
next
  assume v: "item_value h = Some v"
  then show b: "saveItem_begin opts h = Some (h\<lparr>saving := True\<rparr>, getUid opts (props v), v)"
    by (simp add: saveItem_begin_def)
  then show "saving (fst (the (saveItem_begin opts h))) = True" by simp
  from b show e: "fst (saveItem opts (h, w)) = h\<lparr>saving := False\<rparr>"
    by (simp add: saveItem_def saveItem_end_def split_def)
  then show "saving (fst (saveItem opts (h, w))) = False" by simp
  from b show "snd (saveItem opts (h, w)) = snd (updateItem opts (getUid opts (props v)) v w)"
    by (simp add: saveItem_def split_def)
qed

text \<open>Record 2 of the example is bound by \<open>get\<close> and saved: once behind a server that
  refuses the update and once with the fake API, which accepts it. Both times \<open>saving\<close>
  is true while the update is awaited and false at the end. Without a \<open>get\<close> before it,
  \<open>saveItem\<close> changes nothing.\<close>

theorem saveItem_resets_saving_witness:
  "item_value (fst (get readOnly (itemHelpers (Num 2), testStore))) =
     Some \<lparr>addr = 4, props = \<lparr>org_name = ''Org 2'', org_id = 2\<rparr>\<rparr> \<and>
   fst (updateItem readOnly (Num 2) \<lparr>addr = 4, props = \<lparr>org_name = ''Org 2'', org_id = 2\<rparr>\<rparr>
          (snd (get readOnly (itemHelpers (Num 2), testStore)))) = None \<and>
   saving (fst (the (saveItem_begin readOnly
     (fst (get readOnly (itemHelpers (Num 2), testStore)))))) = True \<and>
   saving (fst (saveItem readOnly
     (fst (get readOnly (itemHelpers (Num 2), testStore)),
      snd (get readOnly (itemHelpers (Num 2), testStore))))) = False \<and>
   item_value (fst (get useTestStore (itemHelpers (Num 2), testStore))) =
     Some \<lparr>addr = 4, props = \<lparr>org_name = ''Org 2'', org_id = 2\<rparr>\<rparr> \<and>
   fst (updateItem useTestStore (Num 2) \<lparr>addr = 4, props = \<lparr>org_name = ''Org 2'', org_id = 2\<rparr>\<rparr>
          (snd (get useTestStore (itemHelpers (Num 2), testStore)))) =
     Some \<lparr>addr = 7, props = \<lparr>org_name = ''Org 2'', org_id = 2\<rparr>\<rparr> \<and>
   saving (fst (the (saveItem_begin useTestStore
     (fst (get useTestStore (itemHelpers (Num 2), testStore)))))) = True \<and>
   saving (fst (saveItem useTestStore
     (fst (get useTestStore (itemHelpers (Num 2), testStore)),
      snd (get useTestStore (itemHelpers (Num 2), testStore))))) = False \<and>
   item_value (itemHelpers (Num 2) :: Org helpers) = None \<and>
   saveItem_begin useTestStore (itemHelpers (Num 2)) = None \<and>
   saveItem useTestStore (itemHelpers (Num 2), testStore) = (itemHelpers (Num 2), testStore)"
proof -
  let ?v = "\<lparr>addr = 4, props = \<lparr>org_name = ''Org 2'', org_id = 2\<rparr>\<rparr>"
  let ?hr = "fst (get readOnly (itemHelpers (Num 2), testStore))"
  let ?wr = "snd (get readOnly (itemHelpers (Num 2), testStore))"
  let ?ht = "fst (get useTestStore (itemHelpers (Num 2), testStore))"
  let ?wt = "snd (get useTestStore (itemHelpers (Num 2), testStore))"
  have b1: "item_value ?hr = Some ?v"
    by (simp add: get_def itemHelpers_def readOnly_def run_defs)
  have f1: "fst (updateItem readOnly (Num 2) ?v ?wr) = None"
    by (simp add: get_def itemHelpers_def readOnly_def run_defs)
  have b2: "item_value ?ht = Some ?v"
    by (simp add: get_def itemHelpers_def run_defs)
  have f2: "fst (updateItem useTestStore (Num 2) ?v ?wt) =
      Some \<lparr>addr = 7, props = \<lparr>org_name = ''Org 2'', org_id = 2\<rparr>\<rparr>"
    by (simp add: get_def itemHelpers_def run_defs)
  have b3: "item_value (itemHelpers (Num 2) :: Org helpers) = None"
    by (simp add: itemHelpers_def)
  from saveItem_resets_saving [where h = ?hr and opts = readOnly and w = ?wr and v = ?v] b1
  have s1: "saving (fst (the (saveItem_begin readOnly ?hr))) = True"
    "saving (fst (saveItem readOnly (?hr, ?wr))) = False"
    by blast+
  from saveItem_resets_saving [where h = ?ht and opts = useTestStore and w = ?wt and v = ?v] b2
  have s2: "saving (fst (the (saveItem_begin useTestStore ?ht))) = True"
    "saving (fst (saveItem useTestStore (?ht, ?wt))) = False"
    by blast+
  from saveItem_resets_saving [where h = "itemHelpers (Num 2)" and opts = useTestStore
      and w = testStore] b3
  have s3: "saveItem_begin useTestStore (itemHelpers (Num 2) :: Org helpers) = None"
    "saveItem useTestStore (itemHelpers (Num 2), testStore) = (itemHelpers (Num 2), testStore)"
    by blast+
  from b1 f1 s1 b2 f2 s2 b3 s3 show ?thesis by blast
qed

text \<open>
  C9 as it is stated fails: record 2 is bound by \<open>get\<close>, \<open>saving\<close> is true while the
  update is awaited, the server refuses the update, \<open>updateItem\<close> returns nothing and
  prints the error, and \<open>saving\<close> is false after \<open>saveItem\<close>.
\<close>

theorem saving_reset_after_failure_counterexample:
  "item_value (fst (performHelpers readOnly [Get] (itemHelpers (Num 2), testStore))) =
     Some \<lparr>addr = 4, props = \<lparr>org_name = ''Org 2'', org_id = 2\<rparr>\<rparr> \<and>
   saving (fst (the (saveItem_begin readOnly
     (fst (performHelpers readOnly [Get] (itemHelpers (Num 2), testStore)))))) = True \<and>
   fst (updateItem readOnly (Num 2) \<lparr>addr = 4, props = \<lparr>org_name = ''Org 2'', org_id = 2\<rparr>\<rparr>
          (snd (performHelpers readOnly [Get] (itemHelpers (Num 2), testStore)))) = None \<and>
   console (snd (performHelpers readOnly [Get, SaveItem] (itemHelpers (Num 2), testStore))) =
     [Error ''read only''] \<and>
   saving (fst (performHelpers readOnly [Get, SaveItem] (itemHelpers (Num 2), testStore))) = False"
  by (simp add: get_def saveItem_def saveItem_begin_def saveItem_end_def itemHelpers_def
      readOnly_def run_defs)

section \<open>The flag \<open>getting\<close> of the helpers\<close>

text \<open>
  C10. The helpers that \<open>itemHelpers\<close> returns have \<open>getting\<close> true, no value bound and
  \<open>saving\<close> false. After any operations of these helpers and of the store, \<open>getting\<close>
  is still true exactly when there was no \<open>get\<close> among them; and \<open>getting\<close> is false
  after every \<open>get\<close>.
\<close>

theorem itemHelpers_getting:
  "getting (itemHelpers id' :: 'a helpers) = True \<and>
   item_value (itemHelpers id' :: 'a helpers) = None \<and>
   saving (itemHelpers id' :: 'a helpers) = False \<and>
   getting (fst (performHelpers opts ops (itemHelpers id', w))) = (Get \<notin> set ops) \<and>
   getting (fst (get opts (h, w))) = False"
proof -
  have "getting (fst (performHelpers opts ops (itemHelpers id', w))) = (Get \<notin> set ops)"
    by (simp add: performHelpers_getting itemHelpers_def)
  moreover have "getting (fst (get opts (h, w))) = False"
    by (simp add: get_def Let_def split_def)
  ultimately show ?thesis by (simp add: itemHelpers_def)
qed

text \<open>The helpers of record 2 of the example: \<open>getting\<close> is true after \<open>getAllItems\<close>
  and \<open>saveItem\<close>, and false once a \<open>get\<close> has been among the operations.\<close>

theorem itemHelpers_getting_witness:
  "getting (fst (performHelpers useTestStore [Store GetAllItems, SaveItem]
      (itemHelpers (Num 2), testStore))) = True \<and>
   getting (fst (performHelpers useTestStore [Store GetAllItems, SaveItem, Get, SaveItem]
      (itemHelpers (Num 2), testStore))) = False"
proof -
  from itemHelpers_getting [where opts = useTestStore and w = testStore and id' = "Num 2"
      and ops = "[Store GetAllItems, SaveItem]" and h = "itemHelpers (Num 2)"]
  have "getting (fst (performHelpers useTestStore [Store GetAllItems, SaveItem]
      (itemHelpers (Num 2), testStore))) = ((Get :: Org helperOperation) \<notin> set [Store GetAllItems, SaveItem])"
    by (elim conjE)
  then have a: "getting (fst (performHelpers useTestStore [Store GetAllItems, SaveItem]
      (itemHelpers (Num 2), testStore))) = True"
    by (simp del: performHelpers.simps)
  from itemHelpers_getting [where opts = useTestStore and w = testStore and id' = "Num 2"
      and ops = "[Store GetAllItems, SaveItem, Get, SaveItem]" and h = "itemHelpers (Num 2)"]
  have "getting (fst (performHelpers useTestStore [Store GetAllItems, SaveItem, Get, SaveItem]
      (itemHelpers (Num 2), testStore))) =
      ((Get :: Org helperOperation) \<notin> set [Store GetAllItems, SaveItem, Get, SaveItem])"
    by (elim conjE)
  then have b: "getting (fst (performHelpers useTestStore [Store GetAllItems, SaveItem, Get, SaveItem]
      (itemHelpers (Num 2), testStore))) = False"
    by (simp del: performHelpers.simps)
  from a b show ?thesis by blast
qed

end
